theory Spec2Isabelle
  imports
    Complex_Main
    "HOL-Library.Multiset"
    "HOL-Library.Char_ord"
    "HOL-Library.List_Lexorder"
begin

section \<open>Python values used by timesheet\_parser.py\<close>

text \<open>
  The exceptions the parser can raise. Every function that can raise returns
  \<open>py_error + 'a\<close>, with \<open>Inl\<close> carrying the exception.
\<close>

datatype py_error = ValueError | TypeError | KeyError | ZeroDivisionError | OverflowError

text \<open>
  A Python \<open>dict\<close> is an association list with distinct keys: \<open>d[k] = v\<close> replaces
  the value of an existing key in place and appends a new key at the end; \<open>k in d\<close>
  and \<open>d[k]\<close> are \<open>map_of\<close>. Two dicts are equal in Python when they have the same
  keys with equal values, whatever the insertion order, which is equality of
  \<open>map_of\<close>.
\<close>

type_synonym ('k, 'v) dict = "('k \<times> 'v) list"

fun dict_set :: "'k \<Rightarrow> 'v \<Rightarrow> ('k, 'v) dict \<Rightarrow> ('k, 'v) dict" where
  "dict_set k v [] = [(k, v)]"
| "dict_set k v ((k', v') # d) = (if k' = k then (k, v) # d else (k', v') # dict_set k v d)"

definition dict_keys :: "('k, 'v) dict \<Rightarrow> 'k list" where
  "dict_keys d = map fst d"

subsection \<open>Decimal text\<close>

definition is_digit :: "char \<Rightarrow> bool" where
  "is_digit c \<longleftrightarrow> c \<in> set ''0123456789''"

definition digit_val :: "char \<Rightarrow> int" where
  "digit_val c = int (of_char c) - 48"

definition digit_char :: "nat \<Rightarrow> char" where
  "digit_char n = ''0123456789'' ! n"

text \<open>\<open>str(i)\<close> and \<open>'{0}'.format(i)\<close> for an integer \<open>i\<close>.\<close>

function digits :: "int \<Rightarrow> string" where
  "digits n = (if n < 10 then [digit_char (nat n)] else digits (n div 10) @ [digit_char (nat (n mod 10))])"
  by pat_completeness auto

termination
  by (relation "measure nat") auto

declare digits.simps [simp del]

definition str_int :: "int \<Rightarrow> string" where
  "str_int i = (if i < 0 then CHR ''-'' # digits (- i) else digits i)"

definition digits_val :: "string \<Rightarrow> int" where
  "digits_val s = foldl (\<lambda>a c. 10 * a + digit_val c) 0 s"

text \<open>
  \<open>int(s)\<close> on the strings the parser hands it: an optional sign and decimal digits
  (the pieces of a weekly key). Anything else is a \<open>ValueError\<close>.
\<close>

definition int_of_str :: "string \<Rightarrow> py_error + int" where
  "int_of_str s =
     (case s of
        [] \<Rightarrow> Inl ValueError
      | c # r \<Rightarrow>
          if c = CHR ''-'' \<and> r \<noteq> [] \<and> list_all is_digit r then Inr (- digits_val r)
          else if c = CHR ''+'' \<and> r \<noteq> [] \<and> list_all is_digit r then Inr (digits_val r)
          else if list_all is_digit s then Inr (digits_val s)
          else Inl ValueError)"

text \<open>\<open>s.split(sep)\<close> for a one-character separator: every occurrence splits.\<close>

fun split_on :: "char \<Rightarrow> string \<Rightarrow> string list" where
  "split_on sep [] = [[]]"
| "split_on sep (c # s) =
     (if c = sep then [] # split_on sep s
      else (case split_on sep s of
              [] \<Rightarrow> [[c]]
            | w # ws \<Rightarrow> (c # w) # ws))"

section \<open>The datetime library\<close>

text \<open>
  The parser calls \<open>datetime.datetime.strptime\<close>, \<open>strftime\<close>, subtraction of two
  naive datetimes and \<open>isocalendar\<close>. These are the standard library's, modelled
  here after its proleptic Gregorian ordinal arithmetic.
\<close>

record datetime =
  year :: int
  month :: int
  day :: int
  hour :: int
  minute :: int
  second :: int

definition is_leap :: "int \<Rightarrow> bool" where
  "is_leap y \<longleftrightarrow> y mod 4 = 0 \<and> (y mod 100 \<noteq> 0 \<or> y mod 400 = 0)"

definition days_before_year :: "int \<Rightarrow> int" where
  "days_before_year y = (let y1 = y - 1 in y1 * 365 + y1 div 4 - y1 div 100 + y1 div 400)"

definition days_in_month :: "int \<Rightarrow> int \<Rightarrow> int" where
  "days_in_month y m =
     (if m = 2 then (if is_leap y then 29 else 28)
      else if m = 4 \<or> m = 6 \<or> m = 9 \<or> m = 11 then 30 else 31)"

definition days_before_month :: "int \<Rightarrow> int \<Rightarrow> int" where
  "days_before_month y m =
     [0, 31, 59, 90, 120, 151, 181, 212, 243, 273, 304, 334] ! nat (m - 1)
       + (if 2 < m \<and> is_leap y then 1 else 0)"

definition ymd2ord :: "int \<Rightarrow> int \<Rightarrow> int \<Rightarrow> int" where
  "ymd2ord y m d = days_before_year y + days_before_month y m + d"

definition valid_datetime :: "datetime \<Rightarrow> bool" where
  "valid_datetime t \<longleftrightarrow>
     1 \<le> year t \<and> year t \<le> 9999 \<and> 1 \<le> month t \<and> month t \<le> 12 \<and>
     1 \<le> day t \<and> day t \<le> days_in_month (year t) (month t) \<and>
     0 \<le> hour t \<and> hour t \<le> 23 \<and> 0 \<le> minute t \<and> minute t \<le> 59 \<and>
     0 \<le> second t \<and> second t \<le> 59"

definition toordinal :: "datetime \<Rightarrow> int" where
  "toordinal t = ymd2ord (year t) (month t) (day t)"

definition seconds_of_day :: "datetime \<Rightarrow> int" where
  "seconds_of_day t = hour t * 3600 + minute t * 60 + second t"

text \<open>
  \<open>end_time - start_time\<close> is a \<open>timedelta\<close>, normalised to \<open>(days, seconds)\<close> with
  \<open>0 \<le> seconds < 86400\<close>.
\<close>

record timedelta =
  days :: int
  seconds :: int

definition datetime_sub :: "datetime \<Rightarrow> datetime \<Rightarrow> timedelta" where
  "datetime_sub a b =
     (let total = (toordinal a - toordinal b) * 86400 + (seconds_of_day a - seconds_of_day b)
      in \<lparr>days = total div 86400, seconds = total mod 86400\<rparr>)"

definition isoweek1monday :: "int \<Rightarrow> int" where
  "isoweek1monday y =
     (let firstday = ymd2ord y 1 1;
          firstweekday = (firstday + 6) mod 7;
          week1monday = firstday - firstweekday
      in if firstweekday > 3 then week1monday + 7 else week1monday)"

definition isocalendar :: "datetime \<Rightarrow> int \<times> int \<times> int" where
  "isocalendar t =
     (let y = year t;
          today = toordinal t;
          wk = (today - isoweek1monday y) div 7;
          dy = (today - isoweek1monday y) mod 7
      in if wk < 0 then
           (y - 1, (today - isoweek1monday (y - 1)) div 7 + 1,
                   (today - isoweek1monday (y - 1)) mod 7 + 1)
         else if wk \<ge> 52 \<and> today \<ge> isoweek1monday (y + 1) then (y + 1, 1, dy + 1)
         else (y, wk + 1, dy + 1))"

subsection \<open>strptime and strftime with the format '\%Y\%m\%d\%H\%M\%S'\<close>

text \<open>
  \<open>strptime\<close> compiles the format to the regular expression
  \<^verbatim>\<open>(\d\d\d\d)(1[0-2]|0[1-9]|[1-9])(3[0-1]|[1-2]\d|0[1-9]|[1-9]| [1-9])\<close>
  \<^verbatim>\<open>(2[0-3]|[0-1]\d|\d)([0-5]\d|\d)(6[0-1]|[0-5]\d|\d)\<close>
  and takes its first match from the start of the string. Each group below lists
  its alternatives in the expression's order, so that the first element of the
  combined list is the match a backtracking matcher finds. Text left over after
  the match, and field values no datetime has, are a \<open>ValueError\<close>: here \<open>None\<close>.
\<close>

type_synonym 'a matcher = "string \<Rightarrow> ('a \<times> string) list"

definition two_chars :: "string \<Rightarrow> string \<Rightarrow> int matcher" where
  "two_chars as bs s =
     (case s of
        a # b # r \<Rightarrow> if a \<in> set as \<and> b \<in> set bs then [(10 * digit_val a + digit_val b, r)] else []
      | _ \<Rightarrow> [])"

definition one_char :: "string \<Rightarrow> int matcher" where
  "one_char as s =
     (case s of
        a # r \<Rightarrow> if a \<in> set as then [(digit_val a, r)] else []
      | _ \<Rightarrow> [])"

definition re_Y :: "int matcher" where
  "re_Y s =
     (case s of
        a # b # c # d # r \<Rightarrow>
          if is_digit a \<and> is_digit b \<and> is_digit c \<and> is_digit d
          then [(digits_val [a, b, c, d], r)] else []
      | _ \<Rightarrow> [])"

definition re_m :: "int matcher" where
  "re_m s = two_chars ''1'' ''012'' s @ two_chars ''0'' ''123456789'' s @ one_char ''123456789'' s"

definition re_d :: "int matcher" where
  "re_d s =
     two_chars ''3'' ''01'' s @ two_chars ''12'' ''0123456789'' s @ two_chars ''0'' ''123456789'' s
       @ one_char ''123456789'' s
       @ (case s of a # r \<Rightarrow> if a = CHR '' '' then one_char ''123456789'' r else [] | _ \<Rightarrow> [])"

definition re_H :: "int matcher" where
  "re_H s = two_chars ''2'' ''0123'' s @ two_chars ''01'' ''0123456789'' s @ one_char ''0123456789'' s"

definition re_M :: "int matcher" where
  "re_M s = two_chars ''012345'' ''0123456789'' s @ one_char ''0123456789'' s"

definition re_S :: "int matcher" where
  "re_S s = two_chars ''6'' ''01'' s @ two_chars ''012345'' ''0123456789'' s @ one_char ''0123456789'' s"

definition format_regex :: "datetime matcher" where
  "format_regex s =
     List.bind (re_Y s) (\<lambda>(y, s1).
     List.bind (re_m s1) (\<lambda>(m, s2).
     List.bind (re_d s2) (\<lambda>(d, s3).
     List.bind (re_H s3) (\<lambda>(h, s4).
     List.bind (re_M s4) (\<lambda>(mi, s5).
     List.bind (re_S s5) (\<lambda>(sec, s6).
       [(\<lparr>year = y, month = m, day = d, hour = h, minute = mi, second = sec\<rparr>, s6)]))))))"

definition strptime :: "string \<Rightarrow> datetime option" where
  "strptime s =
     (case format_regex s of
        [] \<Rightarrow> None
      | (t, rest) # _ \<Rightarrow> if rest = [] \<and> valid_datetime t then Some t else None)"

definition pad2 :: "int \<Rightarrow> string" where
  "pad2 n = [digit_char (nat (n div 10)), digit_char (nat (n mod 10))]"

text \<open>
  \<open>strftime\<close> of Python 2.7 refuses years before 1900 with a \<open>ValueError\<close>; from
  1900 on, \<open>%Y\<close> is the four digits of the year.
\<close>

definition strftime :: "datetime \<Rightarrow> py_error + string" where
  "strftime t =
     (if year t < 1900 then Inl ValueError
      else Inr (pad2 (year t div 100) @ pad2 (year t mod 100) @ pad2 (month t) @ pad2 (day t)
                  @ pad2 (hour t) @ pad2 (minute t) @ pad2 (second t)))"

section \<open>Event Loader\<close>

text \<open>
  \<open>get_activities_in_localtime\<close> over the lines of the matching log files, in the
  order they are read. \<open>to_zone\<close> is the conversion of a UTC datetime to local
  time (\<open>replace(tzinfo=from_zone).astimezone(to_zone)\<close>), which depends on the
  machine's time zone rules.

  For each entry, \<open>entry[:-1].split(' ')\<close> is unpacked into two names outside the
  \<open>try\<close>: any other number of pieces is a \<open>ValueError\<close> that nothing catches. When
  \<open>strptime\<close> raises, the handler prints the timestamp and then calls
  \<open>sys.exc_traceback()\<close>, which is not callable: a \<open>TypeError\<close> leaves the handler
  and the function. The first component of the result is what was printed.
\<close>

fun load_entries ::
  "(datetime \<Rightarrow> datetime) \<Rightarrow> string list \<Rightarrow> (string, string) dict
     \<Rightarrow> string list \<times> (py_error + (string, string) dict)" where
  "load_entries to_zone [] localtime_activities = ([], Inr localtime_activities)"
| "load_entries to_zone (entry # entries) localtime_activities =
     (case split_on CHR '' '' (butlast entry) of
        [ts, activity] \<Rightarrow>
          (case strptime ts of
             None \<Rightarrow> ([ts], Inl TypeError)
           | Some utc_ts \<Rightarrow>
               (case strftime (to_zone utc_ts) of
                  Inl e \<Rightarrow> ([], Inl e)
                | Inr local_ts \<Rightarrow>
                    load_entries to_zone entries (dict_set local_ts activity localtime_activities)))
      | _ \<Rightarrow> ([], Inl ValueError))"

definition get_activities_in_localtime ::
  "(datetime \<Rightarrow> datetime) \<Rightarrow> string list list \<Rightarrow> string list \<times> (py_error + (string, string) dict)" where
  "get_activities_in_localtime to_zone log_files = load_entries to_zone (concat log_files) []"

section \<open>Interval Reconstructor\<close>

definition get_ordered_activity_timestamps :: "(string, string) dict \<Rightarrow> (string \<times> string) list" where
  "get_ordered_activity_timestamps localtime_activities = sort_key fst localtime_activities"

record interval =
  activity :: string
  yr :: int
  week :: int
  day_of_week :: int
  time_delta :: int

text \<open>
  \<open>range(len(ordered_timestamps) - 1, 1, -1)\<close> is \<open>len - 1, ..., 2\<close>; the indices
  whose pair is not skipped by the \<open>filter_off\<close> test are the ones that yield.
\<close>

definition yield_indices :: "bool \<Rightarrow> (string \<times> string) list \<Rightarrow> nat list" where
  "yield_indices filter_off ordered_timestamps =
     filter (\<lambda>x. \<not> (filter_off \<and> snd (ordered_timestamps ! (x - 1)) = ''Off''))
       (rev [2..<length ordered_timestamps])"

definition timing_at :: "(string \<times> string) list \<Rightarrow> nat \<Rightarrow> py_error + interval" where
  "timing_at ordered_timestamps x =
     (let (end_ts, end_activity) = ordered_timestamps ! x;
          (start_ts, start_activity) = ordered_timestamps ! (x - 1)
      in case strptime end_ts of
           None \<Rightarrow> Inl ValueError
         | Some end_time \<Rightarrow>
             (case strptime start_ts of
                None \<Rightarrow> Inl ValueError
              | Some start_time \<Rightarrow>
                  (let time_diff = datetime_sub end_time start_time;
                       delta = days time_diff * 24 * 3600 + seconds time_diff;
                       (y, week_number, dow) = isocalendar end_time
                   in Inr \<lparr>activity = start_activity, yr = y, week = week_number,
                            day_of_week = dow, time_delta = delta\<rparr>)))"

text \<open>Running a generator to its end: the values yielded, or the first exception.\<close>

fun collect :: "(py_error + 'a) list \<Rightarrow> py_error + 'a list" where
  "collect [] = Inr []"
| "collect (Inl e # rs) = Inl e"
| "collect (Inr v # rs) = (case collect rs of Inl e \<Rightarrow> Inl e | Inr vs \<Rightarrow> Inr (v # vs))"

text \<open>
  The warning printed for a span of more than 15 hours changes nothing that is
  yielded and is left out.
\<close>

definition get_activity_timings :: "bool \<Rightarrow> (string \<times> string) list \<Rightarrow> py_error + interval list" where
  "get_activity_timings filter_off ordered_timestamps =
     collect (map (timing_at ordered_timestamps) (yield_indices filter_off ordered_timestamps))"

section \<open>Weekly Aggregator\<close>

record 'a tally =
  count' :: 'a
  time' :: 'a

type_synonym weekly = "(string, (string, int tally) dict) dict"

definition weekly_key :: "int \<Rightarrow> int \<Rightarrow> string" where
  "weekly_key y w =
     (if w < 10 then str_int y @ ''-0'' @ str_int w else str_int y @ ''-'' @ str_int w)"

definition weekly_step :: "weekly \<Rightarrow> interval \<Rightarrow> weekly" where
  "weekly_step weekly_info iv =
     (let k = weekly_key (yr iv) (week iv);
          acts = (case map_of weekly_info k of None \<Rightarrow> [] | Some d \<Rightarrow> d);
          acts' = (case map_of acts (activity iv) of
                     None \<Rightarrow> dict_set (activity iv) \<lparr>count' = 1, time' = time_delta iv\<rparr> acts
                   | Some t \<Rightarrow> dict_set (activity iv)
                       \<lparr>count' = count' t + 1, time' = time' t + time_delta iv\<rparr> acts)
      in dict_set k acts' weekly_info)"

text \<open>\<open>get_weekly_info\<close> over the intervals that \<open>get_activity_timings()\<close> yields.\<close>

definition get_weekly_info :: "interval list \<Rightarrow> weekly" where
  "get_weekly_info timings = foldl weekly_step [] timings"

section \<open>Trend Calculator\<close>

definition compute_weeks_ago_index :: "string \<Rightarrow> int \<Rightarrow> py_error + string" where
  "compute_weeks_ago_index cur_week_index weeks_ago =
     (case split_on CHR ''-'' cur_week_index of
        [current_yr, current_week] \<Rightarrow>
          (case int_of_str current_week of
             Inl e \<Rightarrow> Inl e
           | Inr w \<Rightarrow>
               (let prev_week = w - weeks_ago
                in if prev_week < 1 then
                     (case int_of_str current_yr of
                        Inl e \<Rightarrow> Inl e
                      | Inr y \<Rightarrow> Inr (str_int (y - 1) @ ''-'' @ str_int (52 + prev_week)))
                   else Inr (current_yr @ ''-'' @ str_int prev_week)))
      | _ \<Rightarrow> Inl ValueError)"

text \<open>A loop whose body can raise: the state after the last element, or the first exception.\<close>

fun fold_err :: "('s \<Rightarrow> 'a \<Rightarrow> py_error + 's) \<Rightarrow> 'a list \<Rightarrow> 's \<Rightarrow> py_error + 's" where
  "fold_err f [] s = Inr s"
| "fold_err f (x # xs) s = (case f s x of Inl e \<Rightarrow> Inl e | Inr s' \<Rightarrow> fold_err f xs s')"

type_synonym prev_state = "(string, int tally) dict \<times> (string, int) dict"

text \<open>The body of \<open>for activity in weekly_info[week_index]\<close>.\<close>

definition accumulate :: "prev_state \<Rightarrow> string \<times> int tally \<Rightarrow> py_error + prev_state" where
  "accumulate st item =
     (let (previous_weekly_tally, active_week_count) = st; (act, t) = item
      in case map_of previous_weekly_tally act of
           Some p \<Rightarrow>
             (case map_of active_week_count act of
                None \<Rightarrow> Inl KeyError
              | Some n \<Rightarrow>
                  Inr (dict_set act \<lparr>count' = count' p + count' t, time' = time' p + time' t\<rparr>
                         previous_weekly_tally,
                       dict_set act (n + 1) active_week_count))
         | None \<Rightarrow> Inr (dict_set act t previous_weekly_tally, dict_set act 1 active_week_count))"

text \<open>The body of \<open>for i in range(weeks_ago)\<close>.\<close>

definition previous_week_step :: "string \<Rightarrow> weekly \<Rightarrow> prev_state \<Rightarrow> nat \<Rightarrow> py_error + prev_state" where
  "previous_week_step cur_week weekly_info st i =
     (case compute_weeks_ago_index cur_week (int i + 1) of
        Inl e \<Rightarrow> Inl e
      | Inr week_index \<Rightarrow>
          (case map_of weekly_info week_index of
             None \<Rightarrow> Inr st
           | Some acts \<Rightarrow> fold_err accumulate acts st))"

text \<open>
  The closing loop divides by \<open>active_week_count\<close>; Python's floats are modelled by
  the reals, so the quotient is exact.
\<close>

definition average_entry :: "(string, int) dict \<Rightarrow> string \<times> int tally \<Rightarrow> py_error + string \<times> real tally" where
  "average_entry active_week_count item =
     (let (act, t) = item
      in case map_of active_week_count act of
           None \<Rightarrow> Inl KeyError
         | Some n \<Rightarrow>
             if n = 0 then Inl ZeroDivisionError
             else Inr (act, \<lparr>count' = 1 * real_of_int (count' t) / real_of_int n,
                              time' = 1 * real_of_int (time' t) / real_of_int n\<rparr>))"

definition get_previous_weekly_tally ::
  "int \<Rightarrow> string \<Rightarrow> weekly \<Rightarrow> py_error + (string, real tally) dict" where
  "get_previous_weekly_tally weeks_ago cur_week weekly_info =
     (case fold_err (previous_week_step cur_week weekly_info) [0..<nat weeks_ago] ([], []) of
        Inl e \<Rightarrow> Inl e
      | Inr (previous_weekly_tally, active_week_count) \<Rightarrow>
          collect (map (average_entry active_week_count) previous_weekly_tally))"

record wow =
  wow_count :: real
  wow_time :: real

text \<open>The body of \<open>for activity in weekly_info[week]\<close>, given the previous weekly tally.\<close>

definition wow_entry :: "int tally \<Rightarrow> (string, real tally) dict \<Rightarrow> string \<Rightarrow> wow" where
  "wow_entry current previous_weekly_tally act =
     (case map_of previous_weekly_tally act of
        None \<Rightarrow> \<lparr>wow_count = 0, wow_time = 0\<rparr>
      | Some prev \<Rightarrow>
          \<lparr>wow_count = (if count' prev \<ge> 1
                         then 100 * (real_of_int (count' current) - count' prev) / count' prev else 0),
           wow_time = (if time' prev > 1
                        then 100 * (real_of_int (time' current) - time' prev) / time' prev else 0)\<rparr>)"

definition wow_activity :: "int \<Rightarrow> string \<Rightarrow> weekly \<Rightarrow> string \<times> int tally \<Rightarrow> py_error + string \<times> wow" where
  "wow_activity weeks_ago wk weekly_info item =
     (let (act, current) = item
      in case get_previous_weekly_tally weeks_ago wk weekly_info of
           Inl e \<Rightarrow> Inl e
         | Inr previous_weekly_tally \<Rightarrow> Inr (act, wow_entry current previous_weekly_tally act))"

definition wow_week :: "int \<Rightarrow> weekly \<Rightarrow> string \<Rightarrow> py_error + string \<times> (string, wow) dict" where
  "wow_week weeks_ago weekly_info wk =
     (case map_of weekly_info wk of
        None \<Rightarrow> Inl KeyError
      | Some acts \<Rightarrow>
          (case collect (map (wow_activity weeks_ago wk weekly_info) acts) of
             Inl e \<Rightarrow> Inl e
           | Inr entries \<Rightarrow> Inr (wk, entries)))"

text \<open>
  \<open>get_wow_changes\<close> over the result of \<open>get_weekly_info()\<close>: the sorted weeks whose
  position \<open>cnt\<close> is greater than \<open>weeks_ago\<close> get a record.
\<close>

definition get_wow_changes :: "int \<Rightarrow> weekly \<Rightarrow> py_error + (string, (string, wow) dict) dict" where
  "get_wow_changes weeks_ago weekly_info =
     collect (map (wow_week weeks_ago weekly_info)
       (map snd (filter (\<lambda>(cnt, wk). int cnt > weeks_ago)
          (enumerate 0 (sort (dict_keys weekly_info))))))"

section \<open>Daily and overall statistics\<close>

text \<open>
  A day's entry of \<open>daily_statistics\<close> is one dict that holds the three counters
  and, under the activity's name, a dict \<open>{'total_time': t, 'cnt': c}\<close> for every
  activity seen that day.
\<close>

datatype stat = Num int | Act int int

type_synonym day_stats = "(string, stat) dict"

definition NUM_TO_DAY_MAP :: "(int, string) dict" where
  "NUM_TO_DAY_MAP =
     [(1, ''mon''), (2, ''tue''), (3, ''wed''), (4, ''thu''), (5, ''fri''), (6, ''sat''), (7, ''sun'')]"

text \<open>\<open>d[k] += n\<close> for a counter: a missing key and a value that is a dict both raise.\<close>

definition add_num :: "string \<Rightarrow> int \<Rightarrow> day_stats \<Rightarrow> py_error + day_stats" where
  "add_num k n d =
     (case map_of d k of
        None \<Rightarrow> Inl KeyError
      | Some (Num v) \<Rightarrow> Inr (dict_set k (Num (v + n)) d)
      | Some (Act t c) \<Rightarrow> Inl TypeError)"

text \<open>
  The \<open>if activity not in ... else\<close> at the end of the loop body: an activity whose
  name is already a key with a counter under it takes the \<open>else\<close> branch and
  subscripts an integer.
\<close>

definition add_activity :: "string \<Rightarrow> int \<Rightarrow> day_stats \<Rightarrow> py_error + day_stats" where
  "add_activity a delta d =
     (case map_of d a of
        None \<Rightarrow> Inr (dict_set a (Act delta 1) d)
      | Some (Act t c) \<Rightarrow> Inr (dict_set a (Act (t + delta) (c + 1)) d)
      | Some (Num v) \<Rightarrow> Inl TypeError)"

type_synonym daily_state = "(int, day_stats) dict \<times> int"

definition daily_step :: "daily_state \<Rightarrow> interval \<Rightarrow> py_error + daily_state" where
  "daily_step st iv =
     (let (stats, current_day) = st; dow = day_of_week iv
      in case map_of stats dow of
           None \<Rightarrow> Inl KeyError
         | Some d0 \<Rightarrow>
             (case (if dow \<noteq> current_day then add_num ''day_cnts'' 1 d0 else Inr d0) of
                Inl e \<Rightarrow> Inl e
              | Inr d1 \<Rightarrow>
                  (case add_num ''context_switches'' 1 d1 of
                     Inl e \<Rightarrow> Inl e
                   | Inr d2 \<Rightarrow>
                       (case add_num ''total_time'' (time_delta iv) d2 of
                          Inl e \<Rightarrow> Inl e
                        | Inr d3 \<Rightarrow>
                            (case add_activity (activity iv) (time_delta iv) d3 of
                               Inl e \<Rightarrow> Inl e
                             | Inr d4 \<Rightarrow> Inr (dict_set dow d4 stats, dow))))))"

definition initial_daily :: "(int, day_stats) dict" where
  "initial_daily =
     map (\<lambda>dy. (dy, [(''context_switches'', Num 0), (''day_cnts'', Num 0), (''total_time'', Num 0)]))
       (dict_keys NUM_TO_DAY_MAP)"

text \<open>\<open>daily_statistics\<close> over the intervals that \<open>get_activity_timings()\<close> yields.\<close>

definition daily_statistics :: "interval list \<Rightarrow> py_error + (int, day_stats) dict" where
  "daily_statistics timings =
     (case fold_err daily_step timings (initial_daily, 0) of
        Inl e \<Rightarrow> Inl e
      | Inr (stats, current_day) \<Rightarrow> Inr stats)"

text \<open>
  \<open>get_daily_statistics\<close> prints, for each day, one percentage per activity, then
  \<open>ctx_sw\<close> and \<open>work_tm\<close>. The model returns the numbers printed, or the exception
  that ends the function.
\<close>

record day_report =
  percentages :: "(string \<times> real) list"
  ctx_sw :: real
  work_tm :: real

definition num_of :: "day_stats \<Rightarrow> string \<Rightarrow> py_error + int" where
  "num_of d k =
     (case map_of d k of
        None \<Rightarrow> Inl KeyError
      | Some (Num v) \<Rightarrow> Inr v
      | Some (Act t c) \<Rightarrow> Inl TypeError)"

text \<open>The \<open>try\<close> around the percentage: only a \<open>KeyError\<close> gives the default 0.0.\<close>

definition day_percentage :: "day_stats \<Rightarrow> string \<Rightarrow> py_error + string \<times> real" where
  "day_percentage d a =
     (case map_of d a of
        None \<Rightarrow> Inr (a, 0)
      | Some (Num v) \<Rightarrow> Inl TypeError
      | Some (Act t c) \<Rightarrow>
          (case num_of d ''total_time'' of
             Inl e \<Rightarrow> (if e = KeyError then Inr (a, 0) else Inl e)
           | Inr day_total \<Rightarrow>
               if day_total = 0 then Inl ZeroDivisionError
               else Inr (a, 100 * real_of_int t / real_of_int day_total)))"

definition day_report_of :: "(int, day_stats) dict \<Rightarrow> string list \<Rightarrow> int \<Rightarrow> py_error + day_report" where
  "day_report_of daily_stats activities dy =
     (case map_of daily_stats dy of
        None \<Rightarrow> Inl KeyError
      | Some d \<Rightarrow>
          (case collect (map (day_percentage d) activities) of
             Inl e \<Rightarrow> Inl e
           | Inr ps \<Rightarrow>
               (case num_of d ''context_switches'' of
                  Inl e \<Rightarrow> Inl e
                | Inr cs \<Rightarrow>
                    (case num_of d ''day_cnts'' of
                       Inl e \<Rightarrow> Inl e
                     | Inr dc \<Rightarrow>
                         if dc = 0 then Inl ZeroDivisionError
                         else
                           (case num_of d ''total_time'' of
                              Inl e \<Rightarrow> Inl e
                            | Inr tt \<Rightarrow>
                                Inr \<lparr>percentages = ps,
                                     ctx_sw = 1 * real_of_int cs / real_of_int dc,
                                     work_tm = 1 * real_of_int tt / real_of_int dc / 60\<rparr>)))))"

definition report_activities :: "(int, day_stats) dict \<Rightarrow> string list" where
  "report_activities daily_stats =
     sort (remdups (filter (\<lambda>k. k \<notin> set [''day_cnts'', ''total_time'', ''context_switches''])
       (concat (map (\<lambda>dy. case map_of daily_stats dy of None \<Rightarrow> [] | Some d \<Rightarrow> dict_keys d)
          (dict_keys NUM_TO_DAY_MAP)))))"

definition get_daily_statistics :: "interval list \<Rightarrow> py_error + day_report list" where
  "get_daily_statistics timings =
     (case daily_statistics timings of
        Inl e \<Rightarrow> Inl e
      | Inr daily_stats \<Rightarrow>
          collect (map (day_report_of daily_stats (report_activities daily_stats))
            (dict_keys NUM_TO_DAY_MAP)))"

subsection \<open>Overall activity information\<close>

record activity_totals =
  total_time :: int
  weekday_timings :: "int list"
  weekday_count :: int
  weekend_timings :: "int list"
  weekend_count :: int
  percentage_totals :: "real option"

record overall_state =
  weekday_cnt :: int
  weekend_cnt :: int
  activities :: "(string, activity_totals) dict"
  total' :: int
  current_day :: int
  current_week :: int

definition overall_step :: "overall_state \<Rightarrow> interval \<Rightarrow> overall_state" where
  "overall_step st iv =
     (let a = activity iv; delta = time_delta iv; dow = day_of_week iv;
          t0 = (case map_of (activities st) a of
                  None \<Rightarrow> \<lparr>total_time = 0, weekday_timings = [], weekday_count = 0,
                            weekend_timings = [], weekend_count = 0, percentage_totals = None\<rparr>
                | Some t \<Rightarrow> t);
          t1 = t0\<lparr>total_time := total_time t0 + delta\<rparr>;
          moved = (dow \<noteq> current_day st \<or> week iv \<noteq> current_week st);
          st1 = st\<lparr>total' := total' st + delta\<rparr>
      in if 1 \<le> dow \<and> dow < 6 then
           (let t2 = t1\<lparr>weekday_timings := weekday_timings t1 @ [delta],
                         weekday_count := weekday_count t1 + 1\<rparr>;
                st2 = st1\<lparr>activities := dict_set a t2 (activities st1)\<rparr>
            in if moved then st2\<lparr>current_day := dow, current_week := week iv,
                                    weekday_cnt := weekday_cnt st2 + 1\<rparr>
               else st2)
         else
           (let t2 = t1\<lparr>weekend_timings := weekend_timings t1 @ [delta],
                         weekend_count := weekend_count t1 + 1\<rparr>;
                st2 = st1\<lparr>activities := dict_set a t2 (activities st1)\<rparr>
            in if moved then st2\<lparr>current_day := dow, current_week := week iv,
                                    weekend_cnt := weekend_cnt st2 + 1\<rparr>
               else st2))"

definition percentage_entry :: "int \<Rightarrow> string \<times> activity_totals \<Rightarrow> py_error + string \<times> activity_totals" where
  "percentage_entry tot item =
     (let (a, t) = item
      in if tot = 0 then Inl ZeroDivisionError
         else Inr (a, t\<lparr>percentage_totals := Some (real_of_int (total_time t) * 100 / real_of_int tot)\<rparr>))"

record activity_info =
  info_activities :: "(string, activity_totals) dict"
  info_weekday_cnt :: int
  info_weekend_cnt :: int

definition get_overall_actitivity_info :: "interval list \<Rightarrow> py_error + activity_info" where
  "get_overall_actitivity_info timings =
     (let st = foldl overall_step
                 \<lparr>weekday_cnt = 0, weekend_cnt = 0, activities = [], total' = 0,
                  current_day = - 1, current_week = - 1\<rparr> timings
      in case collect (map (percentage_entry (total' st)) (activities st)) of
           Inl e \<Rightarrow> Inl e
         | Inr acts \<Rightarrow>
             Inr \<lparr>info_activities = acts, info_weekday_cnt = weekday_cnt st,
                  info_weekend_cnt = weekend_cnt st\<rparr>)"

subsection \<open>Activity statistics\<close>

text \<open>
  The module begins with \<open>from pylab import *\<close>, which replaces the builtin \<open>sum\<close>
  by \<open>numpy.sum\<close>. So the values of \<open>get_activity_statistics\<close> are of four kinds: a
  Python integer, a Python float, a numpy \<open>int64\<close> and a numpy \<open>float64\<close>. Floats
  are exact reals; a \<open>float64\<close> is also \<open>inf\<close>, \<open>-inf\<close> or \<open>nan\<close>, which numpy gives for
  a division by zero where Python raises.
\<close>

datatype float64 = Finite real | PosInf | NegInf | NaN

datatype number = PyInt int | PyFloat real | Int64 int | Float64 float64

text \<open>An \<open>int64\<close> wraps around at 64 bits.\<close>

definition wrap64 :: "int \<Rightarrow> int" where
  "wrap64 n = (n + 2 ^ 63) mod 2 ^ 64 - 2 ^ 63"

text \<open>
  \<open>sum(timing_list)\<close>, which is \<open>numpy.sum\<close>: the empty list is an empty array of
  \<open>float64\<close>, with sum \<open>0.0\<close>; a list of timings, which are seconds between two
  datetimes and far inside the 64-bit range, is an array of \<open>int64\<close>.
\<close>

definition np_sum :: "int list \<Rightarrow> number" where
  "np_sum xs = (if xs = [] then Float64 (Finite 0) else Int64 (wrap64 (sum_list xs)))"

fun as_float64 :: "number \<Rightarrow> float64" where
  "as_float64 (PyInt a) = Finite (real_of_int a)"
| "as_float64 (PyFloat a) = Finite a"
| "as_float64 (Int64 a) = Finite (real_of_int a)"
| "as_float64 (Float64 x) = x"

fun fadd :: "float64 \<Rightarrow> float64 \<Rightarrow> float64" where
  "fadd (Finite a) (Finite b) = Finite (a + b)"
| "fadd NaN y = NaN"
| "fadd x NaN = NaN"
| "fadd PosInf NegInf = NaN"
| "fadd NegInf PosInf = NaN"
| "fadd PosInf y = PosInf"
| "fadd x PosInf = PosInf"
| "fadd NegInf y = NegInf"
| "fadd x NegInf = NegInf"

text \<open>A \<open>float64\<close> divided by a Python number; a zero divisor is \<open>+0.0\<close>.\<close>

fun fdiv :: "float64 \<Rightarrow> real \<Rightarrow> float64" where
  "fdiv (Finite a) b =
     (if b \<noteq> 0 then Finite (a / b)
      else if a = 0 then NaN else if 0 < a then PosInf else NegInf)"
| "fdiv PosInf b = (if b < 0 then NegInf else PosInf)"
| "fdiv NegInf b = (if b < 0 then PosInf else NegInf)"
| "fdiv NaN b = NaN"

text \<open>
  \<open>x + y\<close>: two Python integers give a Python integer, integers of which one is an
  \<open>int64\<close> give an \<open>int64\<close>, Python numbers of which one is a float give a Python
  float, and everything else is a \<open>float64\<close>.
\<close>

fun py_add :: "number \<Rightarrow> number \<Rightarrow> number" where
  "py_add (PyInt a) (PyInt b) = PyInt (a + b)"
| "py_add (PyInt a) (Int64 b) = Int64 (wrap64 (a + b))"
| "py_add (Int64 a) (PyInt b) = Int64 (wrap64 (a + b))"
| "py_add (Int64 a) (Int64 b) = Int64 (wrap64 (a + b))"
| "py_add (PyInt a) (PyFloat b) = PyFloat (real_of_int a + b)"
| "py_add (PyFloat a) (PyInt b) = PyFloat (a + real_of_int b)"
| "py_add (PyFloat a) (PyFloat b) = PyFloat (a + b)"
| "py_add x y = Float64 (fadd (as_float64 x) (as_float64 y))"

text \<open>
  \<open>x / b\<close> for a Python integer \<open>b\<close>, in Python 2.7: floor division of an integer,
  true division of a float. Python raises on \<open>b = 0\<close>; an \<open>int64\<close> divided by zero
  is 0 and a \<open>float64\<close> divided by zero is \<open>inf\<close>, \<open>-inf\<close> or \<open>nan\<close>, each with a
  warning only.
\<close>

fun div_int :: "number \<Rightarrow> int \<Rightarrow> py_error + number" where
  "div_int (PyInt a) b = (if b = 0 then Inl ZeroDivisionError else Inr (PyInt (a div b)))"
| "div_int (PyFloat a) b =
     (if b = 0 then Inl ZeroDivisionError else Inr (PyFloat (a / real_of_int b)))"
| "div_int (Int64 a) b = Inr (Int64 (if b = 0 then 0 else wrap64 (a div b)))"
| "div_int (Float64 x) b = Inr (Float64 (fdiv x (real_of_int b)))"

text \<open>\<open>x / b\<close> for a Python float \<open>b\<close>.\<close>

fun div_float :: "number \<Rightarrow> real \<Rightarrow> py_error + number" where
  "div_float (PyInt a) b =
     (if b = 0 then Inl ZeroDivisionError else Inr (PyFloat (real_of_int a / b)))"
| "div_float (PyFloat a) b = (if b = 0 then Inl ZeroDivisionError else Inr (PyFloat (a / b)))"
| "div_float (Int64 a) b = Inr (Float64 (fdiv (Finite (real_of_int a)) b))"
| "div_float (Float64 x) b = Inr (Float64 (fdiv x b))"

text \<open>
  \<open>int(x)\<close>: a float is truncated towards zero; \<open>nan\<close> raises \<open>ValueError\<close> and an
  infinity raises \<open>OverflowError\<close>.
\<close>

definition py_trunc :: "real \<Rightarrow> int" where
  "py_trunc r = (if 0 \<le> r then \<lfloor>r\<rfloor> else \<lceil>r\<rceil>)"

fun py_int :: "number \<Rightarrow> py_error + int" where
  "py_int (PyInt a) = Inr a"
| "py_int (PyFloat a) = Inr (py_trunc a)"
| "py_int (Int64 a) = Inr a"
| "py_int (Float64 (Finite a)) = Inr (py_trunc a)"
| "py_int (Float64 NaN) = Inl ValueError"
| "py_int (Float64 PosInf) = Inl OverflowError"
| "py_int (Float64 NegInf) = Inl OverflowError"

text \<open>\<open>int(sum(timing_list) / cnt / 60.0)\<close>\<close>

definition average_mins :: "int list \<Rightarrow> py_error + int" where
  "average_mins timing_list =
     (let cnt = int (length timing_list)
      in if cnt = 0 then Inr 0
         else (case div_int (np_sum timing_list) cnt of
                 Inl e \<Rightarrow> Inl e
               | Inr per_entry \<Rightarrow>
                   (case div_float per_entry 60 of
                      Inl e \<Rightarrow> Inl e
                    | Inr mins \<Rightarrow> py_int mins)))"

text \<open>\<open>int(sorted(timing_list)[mid] / 60.0)\<close> with \<open>mid = int(cnt/2)\<close>\<close>

definition medium_mins :: "int list \<Rightarrow> py_error + int" where
  "medium_mins timing_list =
     (let cnt = length timing_list
      in if cnt = 0 then Inr 0
         else (let mid = cnt div 2
               in case div_float (PyInt (sort timing_list ! mid)) 60 of
                    Inl e \<Rightarrow> Inl e
                  | Inr mins \<Rightarrow> py_int mins))"

type_synonym stats_row = "string \<times> int \<times> int \<times> int"

text \<open>
  The body of \<open>for activity in activities.keys()\<close>: one printed row, of the
  weekday or of the weekend timings, and \<open>total_work_time += sum(...)\<close>.
\<close>

definition stats_step ::
  "(activity_totals \<Rightarrow> int list) \<Rightarrow> (activity_totals \<Rightarrow> int)
     \<Rightarrow> stats_row list \<times> number \<Rightarrow> string \<times> activity_totals
     \<Rightarrow> py_error + stats_row list \<times> number" where
  "stats_step timings_of count_of st item =
     (let (rows, total_work_time) = st; (a, t) = item
      in case average_mins (timings_of t) of
           Inl e \<Rightarrow> Inl e
         | Inr avg \<Rightarrow>
             (case medium_mins (timings_of t) of
                Inl e \<Rightarrow> Inl e
              | Inr med \<Rightarrow>
                  Inr (rows @ [(a, count_of t, avg, med)],
                       py_add total_work_time (np_sum (timings_of t)))))"

text \<open>\<open>int(total_work_time / activity_counts[...] / 60)\<close>\<close>

definition average_work_day :: "number \<Rightarrow> int \<Rightarrow> py_error + int" where
  "average_work_day total_work_time day_cnt =
     (case div_int total_work_time day_cnt of
        Inl e \<Rightarrow> Inl e
      | Inr per_day \<Rightarrow>
          (case div_int per_day 60 of
             Inl e \<Rightarrow> Inl e
           | Inr mins \<Rightarrow> py_int mins))"

record stats_report =
  weekday_rows :: "stats_row list"
  weekday_total_days :: int
  weekday_average :: int
  weekend_rows :: "stats_row list"
  weekend_total_days :: int
  weekend_average :: int

text \<open>
  \<open>get_activity_statistics\<close> prints the weekday table, \<open>Total days\<close> and the average
  work day, then the same for the weekend. The model returns the numbers printed,
  or the exception that ends the function.
\<close>

definition get_activity_statistics :: "interval list \<Rightarrow> py_error + stats_report" where
  "get_activity_statistics timings =
     (case get_overall_actitivity_info timings of
        Inl e \<Rightarrow> Inl e
      | Inr info \<Rightarrow>
          (let acts = info_activities info
           in case fold_err (stats_step weekday_timings weekday_count) acts ([], PyInt 0) of
                Inl e \<Rightarrow> Inl e
              | Inr (wd_rows, wd_time) \<Rightarrow>
                  (case average_work_day wd_time (info_weekday_cnt info) of
                     Inl e \<Rightarrow> Inl e
                   | Inr wd_average \<Rightarrow>
                       (case fold_err (stats_step weekend_timings weekend_count) acts
                               ([], PyInt 0) of
                          Inl e \<Rightarrow> Inl e
                        | Inr (we_rows, we_time) \<Rightarrow>
                            (case average_work_day we_time (info_weekend_cnt info) of
                               Inl e \<Rightarrow> Inl e
                             | Inr we_average \<Rightarrow>
                                 Inr \<lparr>weekday_rows = wd_rows,
                                      weekday_total_days = info_weekday_cnt info,
                                      weekday_average = wd_average,
                                      weekend_rows = we_rows,
                                      weekend_total_days = info_weekend_cnt info,
                                      weekend_average = we_average\<rparr>)))))"

subsection \<open>Spans between datetimes\<close>

text \<open>
  The number of seconds from the start of ordinal day 0 to a datetime; the
  difference of two of them is the span that \<open>get_activity_timings\<close> computes from
  the \<open>timedelta\<close>.
\<close>

definition timestamp_seconds :: "datetime \<Rightarrow> int" where
  "timestamp_seconds t = toordinal t * 86400 + seconds_of_day t"

subsection \<open>Weekly tallies as mappings\<close>

text \<open>
  What Python's \<open>==\<close> compares on a weekly tally: the mapping from weekly key to
  the mapping from activity to its tally, without the insertion order.
\<close>

definition weekly_view :: "weekly \<Rightarrow> string \<Rightarrow> (string \<Rightarrow> int tally option) option" where
  "weekly_view weekly_info = (\<lambda>k. map_option map_of (map_of weekly_info k))"

text \<open>The accumulation rule of \<open>get_weekly_info\<close>, on that mapping.\<close>

definition view_step ::
  "(string \<Rightarrow> (string \<Rightarrow> int tally option) option) \<Rightarrow> interval
     \<Rightarrow> string \<Rightarrow> (string \<Rightarrow> int tally option) option" where
  "view_step M iv =
     (let k = weekly_key (yr iv) (week iv);
          m = (case M k of None \<Rightarrow> Map.empty | Some m \<Rightarrow> m);
          t = (case m (activity iv) of
                 None \<Rightarrow> \<lparr>count' = 1, time' = time_delta iv\<rparr>
               | Some t \<Rightarrow> \<lparr>count' = count' t + 1, time' = time' t + time_delta iv\<rparr>)
      in M(k \<mapsto> m(activity iv \<mapsto> t)))"

subsection \<open>The shape of a day's statistics\<close>

text \<open>
  The three counters of a day's entry, and the invariant of the loop of
  \<open>daily_statistics\<close>: the three counters are integers, every other key holds an
  activity's dict, and a day outside \<open>seen\<close> still has its initial entry.
\<close>

definition counters :: "string set" where
  "counters = {''context_switches'', ''day_cnts'', ''total_time''}"

definition day_ok :: "day_stats \<Rightarrow> bool" where
  "day_ok d \<longleftrightarrow>
     (\<exists>c n t. map_of d ''context_switches'' = Some (Num c)
              \<and> map_of d ''day_cnts'' = Some (Num n)
              \<and> map_of d ''total_time'' = Some (Num t))
     \<and> (\<forall>k v. map_of d k = Some (Num v) \<longrightarrow> k \<in> counters)"

definition daily_inv :: "int set \<Rightarrow> (int, day_stats) dict \<Rightarrow> bool" where
  "daily_inv seen stats \<longleftrightarrow>
     dict_keys stats = [1, 2, 3, 4, 5, 6, 7]
     \<and> (\<forall>dy d. map_of stats dy = Some d \<longrightarrow>
           day_ok d
           \<and> (dy \<notin> seen \<longrightarrow>
                d = [(''context_switches'', Num 0), (''day_cnts'', Num 0), (''total_time'', Num 0)]))"

subsection \<open>Timestamps as numbers\<close>

text \<open>
  The number whose fourteen decimal digits \<open>strftime\<close> writes for a datetime of a
  four-digit year.
\<close>

definition stamp_number :: "datetime \<Rightarrow> int" where
  "stamp_number t =
     ((((year t * 100 + month t) * 100 + day t) * 100 + hour t) * 100 + minute t) * 100 + second t"

section \<open>Sample histories\<close>

text \<open>Weekly tallies of four consecutive weeks, used to run the trend calculation.\<close>

definition trend_history :: weekly where
  "trend_history =
     [(''2024-10'', [(''Coding'', \<lparr>count' = 5, time' = 60\<rparr>)]),
      (''2024-11'', [(''Coding'', \<lparr>count' = 0, time' = 0\<rparr>)]),
      (''2024-12'', [(''Coding'', \<lparr>count' = 1, time' = 3600\<rparr>)]),
      (''2024-13'', [(''Coding'', \<lparr>count' = 3, time' = 7200\<rparr>)])]"

text \<open>
  Intervals of three consecutive weeks, 8 to 10 of 2024, in the order
  \<open>get_activity_timings\<close> yields them (newest first).
\<close>

definition low_week_timings :: "interval list" where
  "low_week_timings =
     [\<lparr>activity = ''Coding'', yr = 2024, week = 10, day_of_week = 1, time_delta = 3600\<rparr>,
      \<lparr>activity = ''Coding'', yr = 2024, week = 10, day_of_week = 2, time_delta = 3600\<rparr>,
      \<lparr>activity = ''Coding'', yr = 2024, week = 10, day_of_week = 3, time_delta = 3600\<rparr>,
      \<lparr>activity = ''Coding'', yr = 2024, week = 9, day_of_week = 1, time_delta = 3600\<rparr>,
      \<lparr>activity = ''Coding'', yr = 2024, week = 9, day_of_week = 2, time_delta = 3600\<rparr>,
      \<lparr>activity = ''Coding'', yr = 2024, week = 8, day_of_week = 1, time_delta = 3600\<rparr>]"

text \<open>
  One hour of Coding on Monday 2024-01-08 and one hour on Monday 2024-01-15, with
  nothing logged in between.
\<close>

definition monday_events :: "(string \<times> string) list" where
  "monday_events =
     [(''20240108080000'', ''Off''), (''20240108090000'', ''Coding''),
      (''20240108100000'', ''Off''), (''20240115090000'', ''Coding''),
      (''20240115100000'', ''Off'')]"

text \<open>A log file whose second line has a malformed timestamp.\<close>

definition bad_log :: "string list" where
  "bad_log =
     [''20240108080000 Off'' @ [CHR 0x0A],
      ''2024xx08090000 Coding'' @ [CHR 0x0A],
      ''20240108110000 Meetings'' @ [CHR 0x0A]]"

section \<open>Properties of the dict operations\<close>

lemma map_of_dict_set: "map_of (dict_set k v d) = (map_of d)(k \<mapsto> v)"
  by (induction d) (auto simp: fun_eq_iff)

lemma dict_keys_dict_set:
  "k \<in> set (dict_keys d) \<Longrightarrow> dict_keys (dict_set k v d) = dict_keys d"
proof (induction d)
  case Nil
  then show ?case by (simp add: dict_keys_def)
next
  case (Cons p d)
  obtain k' v' where p: "p = (k', v')" by (cases p)
  show ?case
  proof (cases "k' = k")
    case True
    with p show ?thesis by (simp add: dict_keys_def)
  next
    case False
    with Cons.prems p have "k \<in> set (dict_keys d)" by (simp add: dict_keys_def)
    with Cons.IH have "dict_keys (dict_set k v d) = dict_keys d" .
    with False p show ?thesis by (simp add: dict_keys_def)
  qed
qed

lemma map_of_dict_keys: "k \<in> set (dict_keys d) \<Longrightarrow> \<exists>v. map_of d k = Some v"
  by (induction d) (auto simp: dict_keys_def)

lemma collect_Inr: "collect rs = Inr vs \<Longrightarrow> rs = map Inr vs"
proof (induction rs arbitrary: vs)
  case Nil
  then show ?case by simp
next
  case (Cons r rs)
  then show ?case
    by (cases r) (auto split: sum.splits)
qed

lemma collect_map_Inr: "collect (map Inr vs) = Inr vs"
  by (induction vs) auto

section \<open>Properties of the Interval Reconstructor\<close>

lemma time_delta_total:
  "days (datetime_sub a b) * 24 * 3600 + seconds (datetime_sub a b)
     = timestamp_seconds a - timestamp_seconds b"
  by (simp add: datetime_sub_def Let_def algebra_simps timestamp_seconds_def)

lemma upt_2_4: "[2..<4] = [2, 3::nat]"
  by (simp add: upt_rec)

lemma timing_at_Some:
  assumes "strptime (fst (ots ! x)) = Some e" and "strptime (fst (ots ! (x - 1))) = Some s"
  shows "timing_at ots x =
           Inr \<lparr>activity = snd (ots ! (x - 1)), yr = fst (isocalendar e),
                week = fst (snd (isocalendar e)), day_of_week = snd (snd (isocalendar e)),
                time_delta = timestamp_seconds e - timestamp_seconds s\<rparr>"
  using assms time_delta_total [of e s]
  by (simp add: timing_at_def Let_def case_prod_beta)

text \<open>
  C1 (amended). For the four events (T0, Off), (T0+1h, Coding), (T0+3h, Meetings),
  (T0+4h, Off) and \<open>filter_off = True\<close>, \<open>get_activity_timings\<close> yields exactly two
  intervals, newest first: Meetings with 3600 seconds, then Coding with 7200
  seconds. Only the oldest pair (Off to Coding) is left out; the pair Meetings to
  Off starts with Meetings and is yielded.
\<close>

theorem C1_four_events_two_intervals:
  assumes "strptime s1 = Some t1" and "strptime s2 = Some t2" and "strptime s3 = Some t3"
    and "timestamp_seconds t2 = timestamp_seconds t1 + 2 * 3600"
    and "timestamp_seconds t3 = timestamp_seconds t1 + 3 * 3600"
  shows "\<exists>m c. get_activity_timings True
            [(s0, ''Off''), (s1, ''Coding''), (s2, ''Meetings''), (s3, ''Off'')] = Inr [m, c]
          \<and> activity m = ''Meetings'' \<and> time_delta m = 3600
          \<and> activity c = ''Coding'' \<and> time_delta c = 7200"
proof -
  let ?ots = "[(s0, ''Off''), (s1, ''Coding''), (s2, ''Meetings''), (s3, ''Off'')]"
  have idx: "yield_indices True ?ots = [3, 2]"
    by (simp add: yield_indices_def upt_2_4)
  have a3: "timing_at ?ots 3 = Inr \<lparr>activity = ''Meetings'', yr = fst (isocalendar t3),
                week = fst (snd (isocalendar t3)), day_of_week = snd (snd (isocalendar t3)),
                time_delta = timestamp_seconds t3 - timestamp_seconds t2\<rparr>"
    using timing_at_Some [of ?ots 3 t3 t2] assms by simp
  have a2: "timing_at ?ots 2 = Inr \<lparr>activity = ''Coding'', yr = fst (isocalendar t2),
                week = fst (snd (isocalendar t2)), day_of_week = snd (snd (isocalendar t2)),
                time_delta = timestamp_seconds t2 - timestamp_seconds t1\<rparr>"
    using timing_at_Some [of ?ots 2 t2 t1] assms by simp
  show ?thesis
    using assms(4,5) by (simp add: get_activity_timings_def idx a3 a2)
qed

lemma strptime_0900:
  "strptime ''20240108090000''
     = Some \<lparr>year = 2024, month = 1, day = 8, hour = 9, minute = 0, second = 0\<rparr>"
  by code_simp

lemma strptime_1100:
  "strptime ''20240108110000''
     = Some \<lparr>year = 2024, month = 1, day = 8, hour = 11, minute = 0, second = 0\<rparr>"
  by code_simp

lemma strptime_1200:
  "strptime ''20240108120000''
     = Some \<lparr>year = 2024, month = 1, day = 8, hour = 12, minute = 0, second = 0\<rparr>"
  by code_simp

lemma span_0900_1100:
  "timestamp_seconds \<lparr>year = 2024, month = 1, day = 8, hour = 11, minute = 0, second = 0\<rparr>
     = timestamp_seconds \<lparr>year = 2024, month = 1, day = 8, hour = 9, minute = 0, second = 0\<rparr>
         + 2 * 3600"
  by code_simp

lemma span_0900_1200:
  "timestamp_seconds \<lparr>year = 2024, month = 1, day = 8, hour = 12, minute = 0, second = 0\<rparr>
     = timestamp_seconds \<lparr>year = 2024, month = 1, day = 8, hour = 9, minute = 0, second = 0\<rparr>
         + 3 * 3600"
  by code_simp

theorem C1_four_events_witness:
  "\<exists>m c. get_activity_timings True
       [(''20240108080000'', ''Off''), (''20240108090000'', ''Coding''),
        (''20240108110000'', ''Meetings''), (''20240108120000'', ''Off'')] = Inr [m, c]
     \<and> activity m = ''Meetings'' \<and> time_delta m = 3600
     \<and> activity c = ''Coding'' \<and> time_delta c = 7200"
  by (rule C1_four_events_two_intervals
        [OF strptime_0900 strptime_1100 strptime_1200 span_0900_1100 span_0900_1200])

text \<open>
  The claim as stated (exactly one interval, Coding with 7200 seconds) fails at
  T0 = 2024-01-08 08:00:00.
\<close>

theorem C1_four_events_counterexample:
  "get_activity_timings True
     [(''20240108080000'', ''Off''), (''20240108090000'', ''Coding''),
      (''20240108110000'', ''Meetings''), (''20240108120000'', ''Off'')]
   = Inr [\<lparr>activity = ''Meetings'', yr = 2024, week = 2, day_of_week = 1, time_delta = 3600\<rparr>,
          \<lparr>activity = ''Coding'', yr = 2024, week = 2, day_of_week = 1, time_delta = 7200\<rparr>]
   \<and> get_activity_timings True
     [(''20240108080000'', ''Off''), (''20240108090000'', ''Coding''),
      (''20240108110000'', ''Meetings''), (''20240108120000'', ''Off'')]
   \<noteq> Inr [\<lparr>activity = ''Coding'', yr = 2024, week = 2, day_of_week = 1, time_delta = 7200\<rparr>]"
  by code_simp

section \<open>Properties of the Trend Calculator\<close>

subsection \<open>Decimal text and weekly keys\<close>

lemma lt10_cases: "n < 10 \<Longrightarrow> n \<in> {0, 1, 2, 3, 4, 5, 6, 7, 8, 9::nat}"
  by auto

lemma digit_val_digit_char: "n < 10 \<Longrightarrow> digit_val (digit_char n) = int n"
  by (drule lt10_cases) (auto simp: digit_val_def digit_char_def)

lemma is_digit_digit_char: "n < 10 \<Longrightarrow> is_digit (digit_char n)"
  by (drule lt10_cases) (auto simp: is_digit_def digit_char_def)

lemma digit_char_not_minus: "n < 10 \<Longrightarrow> digit_char n \<noteq> CHR ''-''"
  by (drule lt10_cases) (auto simp: digit_char_def)

lemma digit_char_not_plus: "n < 10 \<Longrightarrow> digit_char n \<noteq> CHR ''+''"
  by (drule lt10_cases) (auto simp: digit_char_def)

lemma digits_val_snoc: "digits_val (s @ [c]) = 10 * digits_val s + digit_val c"
  by (simp add: digits_val_def)

lemma digits_val_digits: "0 \<le> n \<Longrightarrow> digits_val (digits n) = n"
proof (induction n rule: digits.induct)
  case (1 n)
  show ?case
  proof (cases "n < 10")
    case True
    with 1(2) show ?thesis
      by (simp add: digits.simps [of n] digits_val_def digit_val_digit_char)
  next
    case False
    with 1 have "digits_val (digits n) = 10 * (n div 10) + n mod 10"
      by (simp add: digits.simps [of n] digits_val_snoc digit_val_digit_char)
    then show ?thesis by simp
  qed
qed

lemma digits_all_digits: "list_all is_digit (digits n)"
proof (induction n rule: digits.induct)
  case (1 n)
  then show ?case
    by (cases "n < 10") (simp_all add: digits.simps [of n] is_digit_digit_char)
qed

lemma digits_nonempty: "digits n \<noteq> []"
  by (simp add: digits.simps [of n])

lemma is_digit_not_minus: "is_digit c \<Longrightarrow> c \<noteq> CHR ''-''"
  by (auto simp: is_digit_def)

lemma is_digit_not_plus: "is_digit c \<Longrightarrow> c \<noteq> CHR ''+''"
  by (auto simp: is_digit_def)

lemma digits_no_minus: "CHR ''-'' \<notin> set (digits n)"
  using digits_all_digits [of n] is_digit_not_minus by (auto simp: list_all_iff)

lemma int_of_str_digits:
  assumes "s \<noteq> []" and "list_all is_digit s"
  shows "int_of_str s = Inr (digits_val s)"
proof (cases s)
  case Nil
  with assms show ?thesis by simp
next
  case (Cons c r)
  with assms have "is_digit c" by simp
  then have "c \<noteq> CHR ''-''" "c \<noteq> CHR ''+''"
    by (simp_all add: is_digit_not_minus is_digit_not_plus)
  with Cons assms show ?thesis by (simp add: int_of_str_def)
qed

lemma int_of_str_digits_of: "0 \<le> n \<Longrightarrow> int_of_str (digits n) = Inr n"
  by (simp add: int_of_str_digits digits_nonempty digits_all_digits digits_val_digits)

lemma digits_val_zero_Cons: "digits_val (CHR ''0'' # s) = digits_val s"
  by (simp add: digits_val_def digit_val_def)

lemma int_of_str_padded: "0 \<le> n \<Longrightarrow> int_of_str (CHR ''0'' # digits n) = Inr n"
proof -
  assume n: "0 \<le> n"
  have "list_all is_digit (CHR ''0'' # digits n)"
    by (simp add: digits_all_digits is_digit_def)
  then show ?thesis
    using int_of_str_digits [of "CHR ''0'' # digits n"] n
    by (simp add: digits_val_zero_Cons digits_val_digits)
qed

lemma split_on_no_sep: "sep \<notin> set s \<Longrightarrow> split_on sep s = [s]"
  by (induction s) auto

lemma split_on_once:
  "sep \<notin> set a \<Longrightarrow> sep \<notin> set b \<Longrightarrow> split_on sep (a @ sep # b) = [a, b]"
  by (induction a) (auto simp: split_on_no_sep)

lemma split_weekly_key:
  assumes "0 \<le> y" and "0 \<le> w"
  shows "split_on CHR ''-'' (weekly_key y w)
           = [digits y, if w < 10 then CHR ''0'' # digits w else digits w]"
proof -
  have a: "CHR ''-'' \<notin> set (digits y)" by (rule digits_no_minus)
  have b: "CHR ''-'' \<notin> set (CHR ''0'' # digits w)"
    using digits_no_minus [of w] by simp
  have c: "CHR ''-'' \<notin> set (digits w)" by (rule digits_no_minus)
  show ?thesis
    using assms split_on_once [OF a b] split_on_once [OF a c]
    by (simp add: weekly_key_def str_int_def)
qed

text \<open>
  C6. From a weekly key of year \<open>y\<close> and week \<open>w\<close>, stepping back \<open>n\<close> weeks resolves
  to week \<open>w - n\<close> of the same year when \<open>w - n \<ge> 1\<close>, and otherwise to week
  \<open>52 + (w - n)\<close> of year \<open>y - 1\<close>; the result is \<open>'{0}-{1}'.format(year, week)\<close>.
\<close>

theorem C6_compute_weeks_ago_index:
  assumes "0 \<le> y" and "0 \<le> w"
  shows "compute_weeks_ago_index (weekly_key y w) n =
           Inr (if 1 \<le> w - n then str_int y @ ''-'' @ str_int (w - n)
                else str_int (y - 1) @ ''-'' @ str_int (52 + (w - n)))"
proof -
  have "y < 1 \<Longrightarrow> y = 0"
    using assms(1) by simp
  then show ?thesis
    using assms
    by (auto simp add: compute_weeks_ago_index_def split_weekly_key int_of_str_digits_of
          int_of_str_padded Let_def str_int_def)
qed


lemma weekly_key_2024_1: "weekly_key 2024 1 = ''2024-01''"
  by code_simp

lemma str_2023_52: "str_int (2024 - 1) @ ''-'' @ str_int (52 + (1 - 1)) = ''2023-52''"
  by code_simp

lemma str_2023_51: "str_int (2024 - 1) @ ''-'' @ str_int (52 + (1 - 2)) = ''2023-51''"
  by code_simp

text \<open>
  From the current week (2024, 1) with a window of two weeks, the weeks consulted
  are (2023, 52) and (2023, 51).
\<close>

theorem C6_compute_weeks_ago_index_witness:
  "(0::int) \<le> 2024 \<and> (0::int) \<le> 1
     \<and> compute_weeks_ago_index ''2024-01'' 1 = Inr ''2023-52''
     \<and> compute_weeks_ago_index ''2024-01'' 2 = Inr ''2023-51''"
  using C6_compute_weeks_ago_index [of 2024 1 1] C6_compute_weeks_ago_index [of 2024 1 2]
  by (simp add: weekly_key_2024_1 str_2023_52 [simplified] str_2023_51 [simplified])

section \<open>Properties of the trend records\<close>


lemma map_of_map_entry:
  "map_of (map (\<lambda>(k, v). (k, f k v)) xs) a = map_option (f a) (map_of xs a)"
  by (induction xs) auto

lemma wow_activity_Inr:
  assumes "wow_activity weeks_ago wk weekly_info item = Inr e"
  shows "\<exists>prev. get_previous_weekly_tally weeks_ago wk weekly_info = Inr prev
           \<and> e = (fst item, wow_entry (snd item) prev (fst item))"
  using assms
  by (auto simp: wow_activity_def Let_def case_prod_beta split: sum.splits)

lemma wow_entries:
  assumes "map (wow_activity weeks_ago wk weekly_info) acts = map Inr entries"
    and "acts \<noteq> []"
  shows "\<exists>prev. get_previous_weekly_tally weeks_ago wk weekly_info = Inr prev
           \<and> entries = map (\<lambda>(a, c). (a, wow_entry c prev a)) acts"
proof -
  from assms obtain item rest where acts: "acts = item # rest"
    by (cases acts) auto
  with assms(1) obtain e where "wow_activity weeks_ago wk weekly_info item = Inr e"
    by (cases entries) auto
  then obtain prev where prev: "get_previous_weekly_tally weeks_ago wk weekly_info = Inr prev"
    using wow_activity_Inr by blast
  have "map (wow_activity weeks_ago wk weekly_info) acts
          = map Inr (map (\<lambda>(a, c). (a, wow_entry c prev a)) acts)"
    by (simp add: wow_activity_def prev case_prod_beta Let_def)
  with assms(1) have "map Inr entries
          = (map Inr (map (\<lambda>(a, c). (a, wow_entry c prev a)) acts) :: (py_error + string \<times> wow) list)"
    by simp
  then have "entries = map (\<lambda>(a, c). (a, wow_entry c prev a)) acts"
    by (simp only: inj_map_eq_map [OF inj_Inr])
  with prev show ?thesis by blast
qed

lemma wow_week_Inr:
  assumes "wow_week weeks_ago weekly_info k = Inr (wk, entries)"
  shows "k = wk \<and> (\<exists>acts. map_of weekly_info wk = Some acts
           \<and> collect (map (wow_activity weeks_ago wk weekly_info) acts) = Inr entries)"
  using assms by (auto simp: wow_week_def split: option.splits sum.splits)

text \<open>
  C5. Every record of \<open>get_wow_changes\<close>, for a week and an activity of that week,
  is computed from the current tally and the rolling average of the previous
  weekly tally: \<open>wow_count = 100 * (current_count - avg_count) / avg_count\<close> if
  \<open>avg_count \<ge> 1\<close> and 0.0 otherwise; \<open>wow_time = 100 * (current_time - avg_time) / avg_time\<close>
  if \<open>avg_time > 1\<close> and 0.0 otherwise. Both are 0.0 when the activity has no
  previous tally.
\<close>

theorem C5_wow_guards:
  assumes "get_wow_changes weeks_ago weekly_info = Inr changes"
    and "map_of changes wk = Some entries"
    and "map_of entries act = Some r"
  shows "\<exists>acts cur prev.
           map_of weekly_info wk = Some acts \<and> map_of acts act = Some cur
         \<and> get_previous_weekly_tally weeks_ago wk weekly_info = Inr prev
         \<and> (case map_of prev act of
              None \<Rightarrow> wow_count r = 0 \<and> wow_time r = 0
            | Some avg \<Rightarrow>
                wow_count r = (if count' avg \<ge> 1
                               then 100 * (real_of_int (count' cur) - count' avg) / count' avg else 0)
              \<and> wow_time r = (if time' avg > 1
                              then 100 * (real_of_int (time' cur) - time' avg) / time' avg else 0))"
proof -
  let ?ks = "map snd (filter (\<lambda>(cnt, wk). int cnt > weeks_ago)
               (enumerate 0 (sort (dict_keys weekly_info))))"
  from assms(1) have "map (wow_week weeks_ago weekly_info) ?ks = map Inr changes"
    unfolding get_wow_changes_def by (rule collect_Inr)
  moreover from assms(2) have "(wk, entries) \<in> set changes"
    by (rule map_of_SomeD)
  ultimately have "Inr (wk, entries) \<in> set (map (wow_week weeks_ago weekly_info) ?ks)"
    by simp
  then obtain k where "wow_week weeks_ago weekly_info k = Inr (wk, entries)"
    by auto
  then obtain acts where acts: "map_of weekly_info wk = Some acts"
    and col: "collect (map (wow_activity weeks_ago wk weekly_info) acts) = Inr entries"
    using wow_week_Inr by blast
  from col have m: "map (wow_activity weeks_ago wk weekly_info) acts = map Inr entries"
    by (rule collect_Inr)
  from assms(3) have "entries \<noteq> []" by auto
  with m have "acts \<noteq> []" by auto
  with m obtain prev where prev: "get_previous_weekly_tally weeks_ago wk weekly_info = Inr prev"
    and ent: "entries = map (\<lambda>(a, c). (a, wow_entry c prev a)) acts"
    using wow_entries by blast
  from assms(3) ent have "map_option (\<lambda>c. wow_entry c prev act) (map_of acts act) = Some r"
    using map_of_map_entry [of "\<lambda>a c. wow_entry c prev a" acts act] by simp
  then obtain cur where cur: "map_of acts act = Some cur" and r: "r = wow_entry cur prev act"
    by auto
  have "case map_of prev act of
          None \<Rightarrow> wow_count r = 0 \<and> wow_time r = 0
        | Some avg \<Rightarrow>
            wow_count r = (if count' avg \<ge> 1
                           then 100 * (real_of_int (count' cur) - count' avg) / count' avg else 0)
          \<and> wow_time r = (if time' avg > 1
                          then 100 * (real_of_int (time' cur) - time' avg) / time' avg else 0)"
    by (simp add: r wow_entry_def split: option.splits)
  with acts cur prev show ?thesis by blast
qed


lemma trend_history_wow_2:
  "get_wow_changes 2 trend_history
     = Inr [(''2024-13'', [(''Coding'', \<lparr>wow_count = 0, wow_time = 300\<rparr>)])]"
  by code_simp

lemma trend_history_wow_1:
  "get_wow_changes 1 trend_history
     = Inr [(''2024-12'', [(''Coding'', \<lparr>wow_count = 0, wow_time = 0\<rparr>)]),
            (''2024-13'', [(''Coding'', \<lparr>wow_count = 200, wow_time = 100\<rparr>)])]"
  by code_simp

text \<open>
  With a window of two weeks the average count before week 13 is 0.5 and
  \<open>wow_count\<close> is 0.0; with a window of one week it is 1.0 and \<open>wow_count\<close> is the
  computed 200.
\<close>

lemma trend_history_avg_half:
  "get_previous_weekly_tally 2 ''2024-13'' trend_history
     = Inr [(''Coding'', \<lparr>count' = 1 / 2, time' = 1800\<rparr>)]"
  by code_simp

lemma trend_history_avg_one:
  "get_previous_weekly_tally 1 ''2024-13'' trend_history
     = Inr [(''Coding'', \<lparr>count' = 1, time' = 3600\<rparr>)]"
  by code_simp

theorem C5_wow_guards_witness:
  "get_wow_changes 2 trend_history
       = Inr [(''2024-13'', [(''Coding'', \<lparr>wow_count = 0, wow_time = 300\<rparr>)])]
   \<and> (\<exists>acts cur prev.
         map_of trend_history ''2024-13'' = Some acts \<and> map_of acts ''Coding'' = Some cur
       \<and> get_previous_weekly_tally 2 ''2024-13'' trend_history = Inr prev
       \<and> (case map_of prev ''Coding'' of
            None \<Rightarrow> wow_count \<lparr>wow_count = 0, wow_time = 300\<rparr> = 0
                     \<and> wow_time \<lparr>wow_count = 0, wow_time = 300\<rparr> = 0
          | Some avg \<Rightarrow>
              wow_count \<lparr>wow_count = 0, wow_time = 300\<rparr>
                = (if count' avg \<ge> 1
                   then 100 * (real_of_int (count' cur) - count' avg) / count' avg else 0)
            \<and> wow_time \<lparr>wow_count = 0, wow_time = 300\<rparr>
                = (if time' avg > 1
                   then 100 * (real_of_int (time' cur) - time' avg) / time' avg else 0)))"
proof -
  have h2: "map_of [(''2024-13'', [(''Coding'', \<lparr>wow_count = 0, wow_time = 300\<rparr>)])] ''2024-13''
              = Some [(''Coding'', \<lparr>wow_count = 0, wow_time = 300\<rparr>)]"
    by simp
  have h3: "map_of [(''Coding'', \<lparr>wow_count = 0, wow_time = 300\<rparr>)] ''Coding''
              = Some \<lparr>wow_count = 0, wow_time = 300\<rparr>"
    by simp
  from C5_wow_guards [OF trend_history_wow_2 h2 h3] trend_history_wow_2
  show ?thesis by blast
qed

section \<open>Properties of the Weekly Aggregator\<close>


lemma weekly_view_step: "weekly_view (weekly_step w iv) = view_step (weekly_view w) iv"
  by (auto simp: weekly_view_def weekly_step_def view_step_def Let_def map_of_dict_set fun_eq_iff
      split: option.splits)

lemma view_step_commute: "view_step (view_step M i) j = view_step (view_step M j) i"
  by (auto simp: view_step_def Let_def fun_eq_iff split: option.splits)

lemma weekly_view_foldl:
  "weekly_view (foldl weekly_step w xs) = fold (\<lambda>iv M. view_step M iv) xs (weekly_view w)"
  by (induction xs arbitrary: w) (simp_all add: weekly_view_step)

text \<open>
  C7. Weekly aggregation is order-independent: folding any permutation of an
  interval sequence with the accumulation rule of \<open>get_weekly_info\<close> gives the same
  weekly tally (the same keys, activities, counts and times).
\<close>

theorem C7_weekly_order_independent:
  assumes "mset xs = mset ys"
  shows "weekly_view (get_weekly_info xs) = weekly_view (get_weekly_info ys)"
proof -
  have "fold (\<lambda>iv M. view_step M iv) xs = fold (\<lambda>iv M. view_step M iv) ys"
    using assms by (intro fold_multiset_equiv) (auto simp: view_step_commute fun_eq_iff)
  then show ?thesis
    by (simp add: get_weekly_info_def weekly_view_foldl)
qed


lemma mset_rotate3: "mset [a, b, c] = mset [c, a, b]"
  by simp

theorem C7_weekly_order_independent_witness:
  "mset [\<lparr>activity = ''Coding'', yr = 2024, week = 2, day_of_week = 1, time_delta = 3600\<rparr>,
         \<lparr>activity = ''Email'', yr = 2024, week = 2, day_of_week = 2, time_delta = 600\<rparr>,
         \<lparr>activity = ''Coding'', yr = 2024, week = 11, day_of_week = 3, time_delta = 7200\<rparr>]
     = mset [\<lparr>activity = ''Coding'', yr = 2024, week = 11, day_of_week = 3, time_delta = 7200\<rparr>,
             \<lparr>activity = ''Coding'', yr = 2024, week = 2, day_of_week = 1, time_delta = 3600\<rparr>,
             \<lparr>activity = ''Email'', yr = 2024, week = 2, day_of_week = 2, time_delta = 600\<rparr>]
   \<and> weekly_view (get_weekly_info
        [\<lparr>activity = ''Coding'', yr = 2024, week = 2, day_of_week = 1, time_delta = 3600\<rparr>,
         \<lparr>activity = ''Email'', yr = 2024, week = 2, day_of_week = 2, time_delta = 600\<rparr>,
         \<lparr>activity = ''Coding'', yr = 2024, week = 11, day_of_week = 3, time_delta = 7200\<rparr>])
     = weekly_view (get_weekly_info
        [\<lparr>activity = ''Coding'', yr = 2024, week = 11, day_of_week = 3, time_delta = 7200\<rparr>,
         \<lparr>activity = ''Coding'', yr = 2024, week = 2, day_of_week = 1, time_delta = 3600\<rparr>,
         \<lparr>activity = ''Email'', yr = 2024, week = 2, day_of_week = 2, time_delta = 600\<rparr>])"
  by (rule conjI [OF mset_rotate3 C7_weekly_order_independent [OF mset_rotate3]])

text \<open>The two dicts of the example differ only in the order of their keys.\<close>

lemma weekly_info_orders:
  "get_weekly_info
     [\<lparr>activity = ''Coding'', yr = 2024, week = 2, day_of_week = 1, time_delta = 3600\<rparr>,
      \<lparr>activity = ''Email'', yr = 2024, week = 2, day_of_week = 2, time_delta = 600\<rparr>,
      \<lparr>activity = ''Coding'', yr = 2024, week = 11, day_of_week = 3, time_delta = 7200\<rparr>]
   = [(''2024-02'', [(''Coding'', \<lparr>count' = 1, time' = 3600\<rparr>),
                     (''Email'', \<lparr>count' = 1, time' = 600\<rparr>)]),
      (''2024-11'', [(''Coding'', \<lparr>count' = 1, time' = 7200\<rparr>)])]
   \<and> get_weekly_info
     [\<lparr>activity = ''Coding'', yr = 2024, week = 11, day_of_week = 3, time_delta = 7200\<rparr>,
      \<lparr>activity = ''Coding'', yr = 2024, week = 2, day_of_week = 1, time_delta = 3600\<rparr>,
      \<lparr>activity = ''Email'', yr = 2024, week = 2, day_of_week = 2, time_delta = 600\<rparr>]
   = [(''2024-11'', [(''Coding'', \<lparr>count' = 1, time' = 7200\<rparr>)]),
      (''2024-02'', [(''Coding'', \<lparr>count' = 1, time' = 3600\<rparr>),
                     (''Email'', \<lparr>count' = 1, time' = 600\<rparr>)])]"
  by code_simp

section \<open>Where the code departs from its description\<close>

subsection \<open>Previous weeks below week 10\<close>

text \<open>
  C2. Each of the preceding weeks that has data for the activity should
  contribute to the rolling sum and to the divisor, also when its week number is
  below 10. In the code, \<open>get_weekly_info\<close> writes week 9 as \<open>'2024-09'\<close> and
  \<open>compute_weeks_ago_index\<close> asks for \<open>'2024-9'\<close>: for the history of weeks 8 to 10,
  week 9 holds two intervals of Coding, yet the previous weekly tally of week 10
  is empty and both percentages are the default 0.0 (the claim gives an average
  count of 2 and a change of 50 percent).
\<close>

theorem C2_week_below_10_not_found:
  "get_weekly_info low_week_timings
     = [(''2024-10'', [(''Coding'', \<lparr>count' = 3, time' = 10800\<rparr>)]),
        (''2024-09'', [(''Coding'', \<lparr>count' = 2, time' = 7200\<rparr>)]),
        (''2024-08'', [(''Coding'', \<lparr>count' = 1, time' = 3600\<rparr>)])]
   \<and> compute_weeks_ago_index ''2024-10'' 1 = Inr ''2024-9''
   \<and> get_previous_weekly_tally 1 ''2024-10'' (get_weekly_info low_week_timings) = Inr []
   \<and> get_wow_changes 1 (get_weekly_info low_week_timings)
     = Inr [(''2024-10'', [(''Coding'', \<lparr>wow_count = 0, wow_time = 0\<rparr>)])]"
  by code_simp

subsection \<open>A malformed timestamp in a log file\<close>

lemma load_entries_bad_timestamp:
  assumes "split_on CHR '' '' (butlast entry) = [ts, a]" and "strptime ts = None"
  shows "load_entries to_zone (entry # entries) acc = ([ts], Inl TypeError)"
  using assms by simp

text \<open>
  C3. A line whose timestamp cannot be parsed should be skipped with a
  diagnostic, and the load should go on. In the code the handler prints the
  diagnostic and then raises: the load of a file with one malformed line returns
  no mapping at all, not the mapping of its two well-formed lines.
\<close>

theorem C3_bad_timestamp_aborts_load:
  "get_activities_in_localtime (\<lambda>t. t) [bad_log] = ([''2024xx08090000''], Inl TypeError)"
  by code_simp

subsection \<open>Days counted by the daily statistics\<close>

text \<open>
  C8. \<open>day_cnts\<close> should count each distinct (day of week, ISO week) pair once.
  The cursor of \<open>daily_statistics\<close> holds the day of week only: two Mondays of
  consecutive weeks with nothing logged between them are counted as one day.
\<close>

theorem C8_two_mondays_counted_once:
  "get_activity_timings True monday_events
     = Inr [\<lparr>activity = ''Coding'', yr = 2024, week = 3, day_of_week = 1, time_delta = 3600\<rparr>,
            \<lparr>activity = ''Coding'', yr = 2024, week = 2, day_of_week = 1, time_delta = 3600\<rparr>]
   \<and> daily_statistics
       [\<lparr>activity = ''Coding'', yr = 2024, week = 3, day_of_week = 1, time_delta = 3600\<rparr>,
        \<lparr>activity = ''Coding'', yr = 2024, week = 2, day_of_week = 1, time_delta = 3600\<rparr>]
     = Inr [(1, [(''context_switches'', Num 2), (''day_cnts'', Num 1),
                 (''total_time'', Num 7200), (''Coding'', Act 7200 2)]),
            (2, [(''context_switches'', Num 0), (''day_cnts'', Num 0), (''total_time'', Num 0)]),
            (3, [(''context_switches'', Num 0), (''day_cnts'', Num 0), (''total_time'', Num 0)]),
            (4, [(''context_switches'', Num 0), (''day_cnts'', Num 0), (''total_time'', Num 0)]),
            (5, [(''context_switches'', Num 0), (''day_cnts'', Num 0), (''total_time'', Num 0)]),
            (6, [(''context_switches'', Num 0), (''day_cnts'', Num 0), (''total_time'', Num 0)]),
            (7, [(''context_switches'', Num 0), (''day_cnts'', Num 0), (''total_time'', Num 0)])]"
  by code_simp

subsection \<open>Division by a zero day count\<close>

text \<open>
  C9. The statistics should return defaults where a count is zero. In the code
  the divisions by \<open>day_cnts\<close>, \<open>weekday_cnt\<close> and \<open>weekend_cnt\<close> have no guard. On
  the empty history \<open>get_daily_statistics\<close> and \<open>get_activity_statistics\<close> raise
  \<open>ZeroDivisionError\<close>. On a history of one interval, on a Monday,
  \<open>get_daily_statistics\<close> raises \<open>ZeroDivisionError\<close> at Tuesday, whose \<open>day_cnts\<close> is
  0, and \<open>get_activity_statistics\<close> raises \<open>ValueError\<close>: the weekend total is the
  \<open>numpy.sum\<close> of an empty list, \<open>0.0\<close>, its quotient by the zero \<open>weekend_cnt\<close> is
  \<open>nan\<close>, and \<open>int(nan)\<close> raises. \<open>get_wow_changes\<close> on the empty history returns
  the empty record.
\<close>

theorem C9_zero_day_count_raises:
  "get_daily_statistics [] = Inl ZeroDivisionError
   \<and> get_activity_statistics [] = Inl ZeroDivisionError
   \<and> get_daily_statistics
       [\<lparr>activity = ''Coding'', yr = 2024, week = 3, day_of_week = 1, time_delta = 3600\<rparr>]
     = Inl ZeroDivisionError
   \<and> get_activity_statistics
       [\<lparr>activity = ''Coding'', yr = 2024, week = 3, day_of_week = 1, time_delta = 3600\<rparr>]
     = Inl ValueError
   \<and> get_wow_changes 1 (get_weekly_info []) = Inr []"
  by code_simp

section \<open>Properties of the daily statistics\<close>

lemma add_num_ok:
  assumes "day_ok d" and "k \<in> counters"
  shows "\<exists>d'. add_num k n d = Inr d' \<and> day_ok d'"
proof -
  from assms obtain v where v: "map_of d k = Some (Num v)"
    by (auto simp: day_ok_def counters_def)
  then have run: "add_num k n d = Inr (dict_set k (Num (v + n)) d)"
    by (simp add: add_num_def)
  from assms(1) have nums: "\<And>k' v'. map_of d k' = Some (Num v') \<Longrightarrow> k' \<in> counters"
    by (simp add: day_ok_def)
  from assms(1) obtain c m t where cmt: "map_of d ''context_switches'' = Some (Num c)"
    "map_of d ''day_cnts'' = Some (Num m)" "map_of d ''total_time'' = Some (Num t)"
    by (auto simp: day_ok_def)
  have "day_ok (dict_set k (Num (v + n)) d)"
    unfolding day_ok_def map_of_dict_set
    using cmt nums assms(2) by (auto split: if_splits)
  with run show ?thesis by blast
qed

lemma add_activity_ok:
  assumes "day_ok d" and "a \<notin> counters"
  shows "\<exists>d'. add_activity a x d = Inr d' \<and> day_ok d'"
proof -
  from assms(1) have nums: "\<And>k' v'. map_of d k' = Some (Num v') \<Longrightarrow> k' \<in> counters"
    by (simp add: day_ok_def)
  from assms(1) obtain c m t where cmt: "map_of d ''context_switches'' = Some (Num c)"
    "map_of d ''day_cnts'' = Some (Num m)" "map_of d ''total_time'' = Some (Num t)"
    by (auto simp: day_ok_def)
  from assms(2) have ne: "a \<noteq> ''context_switches''" "a \<noteq> ''day_cnts''" "a \<noteq> ''total_time''"
    by (auto simp: counters_def)
  have ok: "day_ok (dict_set a (Act t' c') d)" for t' c'
    unfolding day_ok_def map_of_dict_set
    using cmt nums ne by (auto split: if_splits)
  show ?thesis
  proof (cases "map_of d a")
    case None
    then show ?thesis using ok by (simp add: add_activity_def)
  next
    case (Some s)
    show ?thesis
    proof (cases s)
      case (Num v)
      with Some nums assms(2) show ?thesis by blast
    next
      case (Act t' c')
      with Some show ?thesis using ok by (simp add: add_activity_def)
    qed
  qed
qed

lemma daily_inv_lookup:
  assumes "daily_inv S stats" and "map_of stats dy = Some d"
  shows "day_ok d"
  using assms by (simp add: daily_inv_def)

lemma daily_inv_keys: "daily_inv S stats \<Longrightarrow> dict_keys stats = [1, 2, 3, 4, 5, 6, 7]"
  by (simp add: daily_inv_def)

lemma daily_inv_unseen:
  assumes "daily_inv S stats" and "map_of stats dy = Some d" and "dy \<notin> S"
  shows "d = [(''context_switches'', Num 0), (''day_cnts'', Num 0), (''total_time'', Num 0)]"
  using assms by (simp add: daily_inv_def)

lemma daily_invI:
  assumes "dict_keys stats = [1, 2, 3, 4, 5, 6, 7]"
    and "\<And>dy d. map_of stats dy = Some d \<Longrightarrow> day_ok d"
    and "\<And>dy d. map_of stats dy = Some d \<Longrightarrow> dy \<notin> S \<Longrightarrow>
           d = [(''context_switches'', Num 0), (''day_cnts'', Num 0), (''total_time'', Num 0)]"
  shows "daily_inv S stats"
  using assms by (simp add: daily_inv_def)

lemma daily_inv_update:
  assumes inv: "daily_inv S stats" and ok: "day_ok d" and mem: "dy \<in> set (dict_keys stats)"
  shows "daily_inv (insert dy S) (dict_set dy d stats)"
proof (rule daily_invI)
  show "dict_keys (dict_set dy d stats) = [1, 2, 3, 4, 5, 6, 7]"
    using daily_inv_keys [OF inv] mem by (simp add: dict_keys_dict_set)
next
  fix dy' d'
  assume look: "map_of (dict_set dy d stats) dy' = Some d'"
  show "day_ok d'"
  proof (cases "dy' = dy")
    case True
    with look ok show ?thesis by (simp add: map_of_dict_set)
  next
    case False
    with look have "map_of stats dy' = Some d'" by (simp add: map_of_dict_set)
    with inv show ?thesis by (rule daily_inv_lookup)
  qed
next
  fix dy' d'
  assume look: "map_of (dict_set dy d stats) dy' = Some d'" and new: "dy' \<notin> insert dy S"
  then have "map_of stats dy' = Some d'" by (simp add: map_of_dict_set)
  moreover from new have "dy' \<notin> S" by simp
  ultimately show "d' = [(''context_switches'', Num 0), (''day_cnts'', Num 0), (''total_time'', Num 0)]"
    using inv by (simp add: daily_inv_unseen)
qed

lemma dow_member: "1 \<le> (d::int) \<Longrightarrow> d \<le> 7 \<Longrightarrow> d \<in> set [1, 2, 3, 4, 5, 6, 7]"
  by simp arith

lemma counters_mem:
  "''day_cnts'' \<in> counters" "''context_switches'' \<in> counters" "''total_time'' \<in> counters"
  by (simp_all add: counters_def)

lemma day_cnts_step:
  assumes "day_ok d0"
  shows "\<exists>d1. (if b then add_num ''day_cnts'' 1 d0 else Inr d0) = Inr d1 \<and> day_ok d1"
proof (cases b)
  case True
  with add_num_ok [OF assms counters_mem(1), of 1] show ?thesis by simp
next
  case False
  with assms show ?thesis by simp
qed

lemma daily_step_run:
  assumes d0: "map_of stats (day_of_week iv) = Some d0"
    and d1: "(if day_of_week iv \<noteq> cur then add_num ''day_cnts'' 1 d0 else Inr d0) = Inr d1"
    and d2: "add_num ''context_switches'' 1 d1 = Inr d2"
    and d3: "add_num ''total_time'' (time_delta iv) d2 = Inr d3"
    and d4: "add_activity (activity iv) (time_delta iv) d3 = Inr d4"
  shows "daily_step (stats, cur) iv = Inr (dict_set (day_of_week iv) d4 stats, day_of_week iv)"
  unfolding daily_step_def Let_def prod.case d0 option.case d1 sum.case d2 d3 d4
  by (rule refl)

lemma daily_step_inv:
  assumes inv: "daily_inv S stats"
    and dow: "1 \<le> day_of_week iv" "day_of_week iv \<le> 7"
    and act: "activity iv \<notin> counters"
  shows "\<exists>stats'. daily_step (stats, cur) iv = Inr (stats', day_of_week iv)
           \<and> daily_inv (insert (day_of_week iv) S) stats'"
proof -
  have "day_of_week iv \<in> set [1, 2, 3, 4, 5, 6, 7]"
    using dow by (rule dow_member)
  then have mem: "day_of_week iv \<in> set (dict_keys stats)"
    by (simp only: daily_inv_keys [OF inv])
  then obtain d0 where d0: "map_of stats (day_of_week iv) = Some d0"
    using map_of_dict_keys by fastforce
  have ok0: "day_ok d0"
    using inv d0 by (rule daily_inv_lookup)
  obtain d1 where d1: "(if day_of_week iv \<noteq> cur then add_num ''day_cnts'' 1 d0 else Inr d0) = Inr d1"
    and ok1: "day_ok d1"
    using day_cnts_step [OF ok0] by fastforce
  obtain d2 where d2: "add_num ''context_switches'' 1 d1 = Inr d2" and ok2: "day_ok d2"
    using add_num_ok [OF ok1 counters_mem(2)] by fastforce
  obtain d3 where d3: "add_num ''total_time'' (time_delta iv) d2 = Inr d3" and ok3: "day_ok d3"
    using add_num_ok [OF ok2 counters_mem(3)] by fastforce
  obtain d4 where d4: "add_activity (activity iv) (time_delta iv) d3 = Inr d4" and ok4: "day_ok d4"
    using add_activity_ok [OF ok3 act] by fastforce
  have step: "daily_step (stats, cur) iv = Inr (dict_set (day_of_week iv) d4 stats, day_of_week iv)"
    using d0 d1 d2 d3 d4 by (rule daily_step_run)
  have "daily_inv (insert (day_of_week iv) S) (dict_set (day_of_week iv) d4 stats)"
    using inv ok4 mem by (rule daily_inv_update)
  with step show ?thesis by (intro exI conjI)
qed

lemma daily_fold_inv:
  assumes "daily_inv S stats"
    and "\<forall>iv\<in>set xs. 1 \<le> day_of_week iv \<and> day_of_week iv \<le> 7 \<and> activity iv \<notin> counters"
  shows "\<exists>stats' cur'. fold_err daily_step xs (stats, cur) = Inr (stats', cur')
           \<and> daily_inv (S \<union> day_of_week ` set xs) stats'"
  using assms
proof (induction xs arbitrary: stats cur S)
  case Nil
  then show ?case by simp
next
  case (Cons iv xs)
  from Cons.prems(2) have iv: "1 \<le> day_of_week iv" "day_of_week iv \<le> 7" "activity iv \<notin> counters"
    and rest: "\<forall>iv\<in>set xs. 1 \<le> day_of_week iv \<and> day_of_week iv \<le> 7 \<and> activity iv \<notin> counters"
    by simp_all
  from daily_step_inv [OF Cons.prems(1) iv, of cur] obtain stats1 where
    step: "daily_step (stats, cur) iv = Inr (stats1, day_of_week iv)"
    and inv1: "daily_inv (insert (day_of_week iv) S) stats1"
    by fastforce
  from Cons.IH [OF inv1 rest, of "day_of_week iv"] obtain stats' cur' where
    run: "fold_err daily_step xs (stats1, day_of_week iv) = Inr (stats', cur')"
    and inv': "daily_inv (insert (day_of_week iv) S \<union> day_of_week ` set xs) stats'"
    by fastforce
  have "fold_err daily_step (iv # xs) (stats, cur) = Inr (stats', cur')"
    by (simp add: step run)
  moreover have "daily_inv (S \<union> day_of_week ` set (iv # xs)) stats'"
    using inv' by simp
  ultimately show ?case by (intro exI conjI)
qed

lemma initial_daily_eq:
  "initial_daily =
     map (\<lambda>dy. (dy, [(''context_switches'', Num 0), (''day_cnts'', Num 0), (''total_time'', Num 0)]))
       [1, 2, 3, 4, 5, 6, 7]"
  by (simp add: initial_daily_def NUM_TO_DAY_MAP_def dict_keys_def)

lemma initial_day_ok:
  "day_ok [(''context_switches'', Num 0), (''day_cnts'', Num 0), (''total_time'', Num 0)]"
  by (simp add: day_ok_def counters_def)

lemma initial_daily_lookup:
  "map_of initial_daily dy = Some d \<Longrightarrow>
     d = [(''context_switches'', Num 0), (''day_cnts'', Num 0), (''total_time'', Num 0)]"
  by (simp add: initial_daily_eq split: if_splits)

lemma initial_daily_inv: "daily_inv {} initial_daily"
proof (rule daily_invI)
  show "dict_keys initial_daily = [1, 2, 3, 4, 5, 6, 7]"
    by (simp add: initial_daily_eq dict_keys_def)
next
  fix dy d
  assume "map_of initial_daily dy = Some d"
  then show "day_ok d"
    using initial_daily_lookup initial_day_ok by simp
next
  fix dy d
  assume "map_of initial_daily dy = Some d"
  then show "d = [(''context_switches'', Num 0), (''day_cnts'', Num 0), (''total_time'', Num 0)]"
    by (rule initial_daily_lookup)
qed

lemma day_ok_counters:
  assumes "day_ok d"
  shows "\<exists>c n t. map_of d ''context_switches'' = Some (Num c)
           \<and> map_of d ''day_cnts'' = Some (Num n) \<and> map_of d ''total_time'' = Some (Num t)"
  using assms by (simp add: day_ok_def)

text \<open>
  C10 (amended). For every interval sequence, the empty one included, whose days
  of the week lie in 1 to 7 and whose activity labels are none of
  \<open>context_switches\<close>, \<open>day_cnts\<close> and \<open>total_time\<close>, \<open>daily_statistics\<close> returns
  a mapping with exactly the keys 1 to 7; each entry has the three counters, and
  they are 0 for a day on which no interval ends.
\<close>

theorem C10_daily_statistics_shape:
  assumes "\<forall>iv\<in>set timings. 1 \<le> day_of_week iv \<and> day_of_week iv \<le> 7
             \<and> activity iv \<notin> {''context_switches'', ''day_cnts'', ''total_time''}"
  shows "\<exists>stats. daily_statistics timings = Inr stats
           \<and> dict_keys stats = [1, 2, 3, 4, 5, 6, 7]
           \<and> (\<forall>dy\<in>set [1, 2, 3, 4, 5, 6, 7]. \<exists>d c n t.
                 map_of stats dy = Some d
               \<and> map_of d ''context_switches'' = Some (Num c)
               \<and> map_of d ''day_cnts'' = Some (Num n)
               \<and> map_of d ''total_time'' = Some (Num t)
               \<and> (dy \<notin> day_of_week ` set timings \<longrightarrow> c = 0 \<and> n = 0 \<and> t = 0))"
proof -
  from assms have ok: "\<forall>iv\<in>set timings. 1 \<le> day_of_week iv \<and> day_of_week iv \<le> 7
      \<and> activity iv \<notin> counters"
    by (simp only: counters_def)
  from daily_fold_inv [OF initial_daily_inv ok, of 0] obtain stats cur where
    run: "fold_err daily_step timings (initial_daily, 0) = Inr (stats, cur)"
    and inv: "daily_inv ({} \<union> day_of_week ` set timings) stats"
    by fastforce
  from run have res: "daily_statistics timings = Inr stats"
    by (simp add: daily_statistics_def)
  from inv have inv': "daily_inv (day_of_week ` set timings) stats" by simp
  have keys: "dict_keys stats = [1, 2, 3, 4, 5, 6, 7]"
    using inv' by (rule daily_inv_keys)
  have days: "\<forall>dy\<in>set [1, 2, 3, 4, 5, 6, 7]. \<exists>d c n t.
                 map_of stats dy = Some d
               \<and> map_of d ''context_switches'' = Some (Num c)
               \<and> map_of d ''day_cnts'' = Some (Num n)
               \<and> map_of d ''total_time'' = Some (Num t)
               \<and> (dy \<notin> day_of_week ` set timings \<longrightarrow> c = 0 \<and> n = 0 \<and> t = 0)"
  proof
    fix dy :: int
    assume "dy \<in> set [1, 2, 3, 4, 5, 6, 7]"
    then have "dy \<in> set (dict_keys stats)" by (simp only: keys)
    then obtain d where d: "map_of stats dy = Some d"
      using map_of_dict_keys by fastforce
    have "day_ok d" using inv' d by (rule daily_inv_lookup)
    then obtain c n t where c: "map_of d ''context_switches'' = Some (Num c)"
      and n: "map_of d ''day_cnts'' = Some (Num n)" and t: "map_of d ''total_time'' = Some (Num t)"
      using day_ok_counters by fastforce
    have zero: "c = 0 \<and> n = 0 \<and> t = 0" if "dy \<notin> day_of_week ` set timings"
    proof -
      from daily_inv_unseen [OF inv' d that]
      have "d = [(''context_switches'', Num 0), (''day_cnts'', Num 0), (''total_time'', Num 0)]" .
      with c n t show ?thesis by simp
    qed
    show "\<exists>d c n t. map_of stats dy = Some d
               \<and> map_of d ''context_switches'' = Some (Num c)
               \<and> map_of d ''day_cnts'' = Some (Num n)
               \<and> map_of d ''total_time'' = Some (Num t)
               \<and> (dy \<notin> day_of_week ` set timings \<longrightarrow> c = 0 \<and> n = 0 \<and> t = 0)"
    proof (intro exI conjI)
      show "map_of stats dy = Some d" by (rule d)
      show "map_of d ''context_switches'' = Some (Num c)" by (rule c)
      show "map_of d ''day_cnts'' = Some (Num n)" by (rule n)
      show "map_of d ''total_time'' = Some (Num t)" by (rule t)
      show "dy \<notin> day_of_week ` set timings \<longrightarrow> c = 0 \<and> n = 0 \<and> t = 0"
        by (rule impI) (rule zero)
    qed
  qed
  show ?thesis
    using res keys days by (intro exI conjI)
qed

theorem C10_daily_statistics_shape_witness:
  "1 \<le> day_of_week \<lparr>activity = ''Coding'', yr = 2024, week = 3, day_of_week = 1, time_delta = 3600\<rparr>
   \<and> day_of_week \<lparr>activity = ''Coding'', yr = 2024, week = 3, day_of_week = 1, time_delta = 3600\<rparr> \<le> 7
   \<and> activity \<lparr>activity = ''Coding'', yr = 2024, week = 3, day_of_week = 1, time_delta = 3600\<rparr>
       \<notin> {''context_switches'', ''day_cnts'', ''total_time''}
   \<and> (\<exists>stats.
        daily_statistics
          [\<lparr>activity = ''Coding'', yr = 2024, week = 3, day_of_week = 1, time_delta = 3600\<rparr>]
          = Inr stats
      \<and> dict_keys stats = [1, 2, 3, 4, 5, 6, 7]
      \<and> (\<forall>dy\<in>set [1, 2, 3, 4, 5, 6, 7]. \<exists>d c n t.
            map_of stats dy = Some d
          \<and> map_of d ''context_switches'' = Some (Num c)
          \<and> map_of d ''day_cnts'' = Some (Num n)
          \<and> map_of d ''total_time'' = Some (Num t)
          \<and> (dy \<notin> day_of_week `
                set [\<lparr>activity = ''Coding'', yr = 2024, week = 3, day_of_week = 1,
                       time_delta = 3600\<rparr>]
               \<longrightarrow> c = 0 \<and> n = 0 \<and> t = 0)))"
proof -
  have h1: "1 \<le> day_of_week \<lparr>activity = ''Coding'', yr = 2024, week = 3, day_of_week = 1,
                               time_delta = 3600\<rparr>"
    and h2: "day_of_week \<lparr>activity = ''Coding'', yr = 2024, week = 3, day_of_week = 1,
                               time_delta = 3600\<rparr> \<le> 7"
    and h3: "activity \<lparr>activity = ''Coding'', yr = 2024, week = 3, day_of_week = 1,
                               time_delta = 3600\<rparr>
               \<notin> {''context_switches'', ''day_cnts'', ''total_time''}"
    by simp_all
  have h: "\<forall>iv\<in>set [\<lparr>activity = ''Coding'', yr = 2024, week = 3, day_of_week = 1,
                        time_delta = 3600\<rparr>].
       1 \<le> day_of_week iv \<and> day_of_week iv \<le> 7
     \<and> activity iv \<notin> {''context_switches'', ''day_cnts'', ''total_time''}"
    using h1 h2 h3 by simp
  show ?thesis
    by (intro conjI h1 h2 h3 C10_daily_statistics_shape [OF h])
qed

text \<open>
  The claim as stated (every interval sequence) fails for an activity that is
  named like a counter: the loop subscripts the integer stored under that key.
\<close>

theorem C10_daily_statistics_counterexample:
  "daily_statistics
     [\<lparr>activity = ''total_time'', yr = 2024, week = 3, day_of_week = 1, time_delta = 3600\<rparr>]
   = Inl TypeError"
  by code_simp

section \<open>Properties of ordered event streams\<close>

subsection \<open>Calendar arithmetic\<close>

lemma month_cases: "1 \<le> (m::int) \<Longrightarrow> m \<le> 12 \<Longrightarrow> m \<in> set [1, 2, 3, 4, 5, 6, 7, 8, 9, 10, 11, 12]"
  by simp arith

lemma days_before_month_step:
  assumes "1 \<le> m" and "m \<le> 11"
  shows "days_before_month y (m + 1) = days_before_month y m + days_in_month y m"
proof -
  from assms have "m \<in> set [1, 2, 3, 4, 5, 6, 7, 8, 9, 10, 11]" by simp arith
  then show ?thesis
    by (auto simp: days_before_month_def days_in_month_def)
qed

lemma days_in_month_pos: "0 < days_in_month y m"
  by (simp add: days_in_month_def)

lemma days_before_month_mono:
  assumes "1 \<le> m" and "m \<le> m'" and "m' \<le> 12"
  shows "days_before_month y m \<le> days_before_month y m'"
  using assms(2,1,3)
proof (induction m' rule: int_ge_induct)
  case base
  show ?case by simp
next
  case (step i)
  then have "days_before_month y (i + 1) = days_before_month y i + days_in_month y i"
    by (intro days_before_month_step) simp_all
  with step days_in_month_pos [of y i] show ?case by simp
qed

lemma days_before_month_next:
  assumes "1 \<le> m" and "m < m'" and "m' \<le> 12"
  shows "days_before_month y m + days_in_month y m \<le> days_before_month y m'"
proof -
  from assms have "days_before_month y (m + 1) = days_before_month y m + days_in_month y m"
    by (intro days_before_month_step) simp_all
  moreover from assms have "days_before_month y (m + 1) \<le> days_before_month y m'"
    by (intro days_before_month_mono) simp_all
  ultimately show ?thesis by simp
qed

lemma days_before_month_year_end:
  assumes "1 \<le> m" and "m \<le> 12"
  shows "days_before_month y m + days_in_month y m \<le> 365 + (if is_leap y then 1 else 0)"
proof (cases "m = 12")
  case True
  then show ?thesis by (simp add: days_before_month_def days_in_month_def)
next
  case False
  with assms have "days_before_month y m + days_in_month y m \<le> days_before_month y 12"
    by (intro days_before_month_next) simp_all
  then show ?thesis by (simp add: days_before_month_def)
qed

lemma div_step:
  assumes "0 < (k::int)"
  shows "y div k - (y - 1) div k = (if y mod k = 0 then 1 else 0)"
proof (cases "y mod k = 0")
  case True
  have "y = k * (y div k) + y mod k" by simp
  with True have "y - 1 = k * (y div k - 1) + (k - 1)"
    by (simp add: algebra_simps)
  then have "(y - 1) div k = y div k - 1"
    using int_div_pos_eq [of "y - 1" k "y div k - 1" "k - 1"] assms by simp
  with True show ?thesis by simp
next
  case False
  have "0 \<le> y mod k" using assms by simp
  with False have "0 < y mod k" by linarith
  moreover have "y mod k < k" using assms by simp
  moreover have "y - 1 = k * (y div k) + (y mod k - 1)" by simp
  ultimately have "(y - 1) div k = y div k"
    using int_div_pos_eq [of "y - 1" k "y div k" "y mod k - 1"] by simp
  with False show ?thesis by simp
qed

lemma mod_400_100: "(y::int) mod 400 = 0 \<Longrightarrow> y mod 100 = 0"
proof -
  assume "y mod 400 = 0"
  then have "400 dvd y" by (simp add: mod_eq_0_iff_dvd)
  moreover have "(100::int) dvd 400" by simp
  ultimately have "100 dvd y" using dvd_trans by blast
  then show ?thesis by (simp add: mod_eq_0_iff_dvd)
qed

lemma mod_100_4: "(y::int) mod 100 = 0 \<Longrightarrow> y mod 4 = 0"
proof -
  assume "y mod 100 = 0"
  then have "100 dvd y" by (simp add: mod_eq_0_iff_dvd)
  moreover have "(4::int) dvd 100" by simp
  ultimately have "4 dvd y" using dvd_trans by blast
  then show ?thesis by (simp add: mod_eq_0_iff_dvd)
qed

lemma leap_indicator:
  "(if y mod 4 = 0 then 1 else 0) - (if y mod 100 = 0 then 1 else 0)
     + (if y mod 400 = 0 then 1 else (0::int)) = (if is_leap y then 1 else 0)"
proof (cases "y mod 400 = 0")
  case True
  then have "y mod 100 = 0" by (rule mod_400_100)
  moreover from this have "y mod 4 = 0" by (rule mod_100_4)
  ultimately show ?thesis using True by (simp add: is_leap_def)
next
  case n400: False
  show ?thesis
  proof (cases "y mod 100 = 0")
    case True
    then have "y mod 4 = 0" by (rule mod_100_4)
    with True n400 show ?thesis by (simp add: is_leap_def)
  next
    case n100: False
    show ?thesis
    proof (cases "y mod 4 = 0")
      case True
      with n100 n400 show ?thesis by (simp add: is_leap_def)
    next
      case False
      with n100 n400 show ?thesis by (simp add: is_leap_def)
    qed
  qed
qed

lemma days_before_year_step:
  "days_before_year (y + 1) = days_before_year y + 365 + (if is_leap y then 1 else 0)"
proof -
  define e4 :: int where "e4 = (if y mod 4 = 0 then 1 else 0)"
  define e100 :: int where "e100 = (if y mod 100 = 0 then 1 else 0)"
  define e400 :: int where "e400 = (if y mod 400 = 0 then 1 else 0)"
  define a where "a = y div 4"
  define a' where "a' = (y - 1) div 4"
  define b where "b = y div 100"
  define b' where "b' = (y - 1) div 100"
  define c where "c = y div 400"
  define c' where "c' = (y - 1) div 400"
  have ea: "a - a' = e4" unfolding a_def a'_def e4_def by (rule div_step) simp
  have eb: "b - b' = e100" unfolding b_def b'_def e100_def by (rule div_step) simp
  have ec: "c - c' = e400" unfolding c_def c'_def e400_def by (rule div_step) simp
  have next_year: "days_before_year (y + 1) = y * 365 + a - b + c"
    unfolding a_def b_def c_def by (simp add: days_before_year_def)
  have this_year: "days_before_year y = (y - 1) * 365 + a' - b' + c'"
    unfolding a'_def b'_def c'_def by (simp add: days_before_year_def Let_def)
  have "days_before_year (y + 1) = days_before_year y + 365 + (e4 - e100 + e400)"
    using ea eb ec next_year this_year by (simp add: algebra_simps)
  moreover have "e4 - e100 + e400 = (if is_leap y then 1 else 0)"
    unfolding e4_def e100_def e400_def by (rule leap_indicator)
  ultimately show ?thesis by simp
qed

lemma days_before_year_mono:
  assumes "y \<le> y'"
  shows "days_before_year y \<le> days_before_year y'"
  using assms
proof (induction y' rule: int_ge_induct)
  case base
  show ?case by simp
next
  case (step i)
  then show ?case by (simp add: days_before_year_step)
qed

lemma days_before_month_nonneg:
  assumes "1 \<le> m" and "m \<le> 12"
  shows "0 \<le> days_before_month y m"
proof -
  have "days_before_month y 1 \<le> days_before_month y m"
    using assms by (intro days_before_month_mono) simp_all
  then show ?thesis by (simp add: days_before_month_def)
qed

lemma ymd2ord_same_month:
  "d1 < d2 \<Longrightarrow> ymd2ord y m d1 < ymd2ord y m d2"
  by (simp add: ymd2ord_def)

lemma ymd2ord_same_year:
  assumes "1 \<le> m1" and "m1 < m2" and "m2 \<le> 12"
    and "d1 \<le> days_in_month y m1" and "1 \<le> d2"
  shows "ymd2ord y m1 d1 < ymd2ord y m2 d2"
proof -
  have "days_before_month y m1 + days_in_month y m1 \<le> days_before_month y m2"
    using assms(1-3) by (rule days_before_month_next)
  with assms(4,5) show ?thesis by (simp add: ymd2ord_def)
qed

lemma ymd2ord_earlier_year:
  assumes "y1 < y2"
    and "1 \<le> m1" and "m1 \<le> 12" and "d1 \<le> days_in_month y1 m1"
    and "1 \<le> m2" and "m2 \<le> 12" and "1 \<le> d2"
  shows "ymd2ord y1 m1 d1 < ymd2ord y2 m2 d2"
proof -
  have a: "days_before_month y1 m1 + days_in_month y1 m1 \<le> 365 + (if is_leap y1 then 1 else 0)"
    using assms(2,3) by (rule days_before_month_year_end)
  have "days_before_year (y1 + 1) \<le> days_before_year y2"
    using assms(1) by (intro days_before_year_mono) simp
  then have b: "days_before_year y1 + 365 + (if is_leap y1 then 1 else 0) \<le> days_before_year y2"
    by (simp add: days_before_year_step)
  have c: "0 \<le> days_before_month y2 m2"
    using assms(5,6) by (rule days_before_month_nonneg)
  have "ymd2ord y1 m1 d1 \<le> days_before_year y1 + (days_before_month y1 m1 + days_in_month y1 m1)"
    using assms(4) by (simp add: ymd2ord_def)
  also have "\<dots> \<le> days_before_year y2"
    using a b by linarith
  also have "\<dots> < ymd2ord y2 m2 d2"
    using c assms(7) by (simp add: ymd2ord_def)
  finally show ?thesis .
qed

lemma toordinal_less:
  assumes v1: "valid_datetime t1" and v2: "valid_datetime t2"
    and lt: "(year t1 * 100 + month t1) * 100 + day t1 < (year t2 * 100 + month t2) * 100 + day t2"
  shows "toordinal t1 < toordinal t2"
proof -
  from v1 have b1: "1 \<le> month t1" "month t1 \<le> 12" "1 \<le> day t1"
    "day t1 \<le> days_in_month (year t1) (month t1)"
    by (simp_all add: valid_datetime_def)
  from v2 have b2: "1 \<le> month t2" "month t2 \<le> 12" "1 \<le> day t2"
    "day t2 \<le> days_in_month (year t2) (month t2)"
    by (simp_all add: valid_datetime_def)
  have dim: "days_in_month y m \<le> 31" for y m
    by (simp add: days_in_month_def)
  from b1 dim [of "year t1" "month t1"] have d1: "day t1 \<le> 31" by linarith
  from b2 dim [of "year t2" "month t2"] have d2: "day t2 \<le> 31" by linarith
  from lt have lt': "year t1 * 10000 + month t1 * 100 + day t1
      < year t2 * 10000 + month t2 * 100 + day t2"
    by (simp add: algebra_simps)
  consider "year t1 < year t2" | "year t1 = year t2" "month t1 < month t2"
    | "year t1 = year t2" "month t1 = month t2" "day t1 < day t2"
    | "year t2 < year t1" | "year t1 = year t2" "month t2 < month t1"
    | "year t1 = year t2" "month t1 = month t2" "day t2 \<le> day t1"
    by linarith
  then show ?thesis
  proof cases
    case 1
    then show ?thesis
      unfolding toordinal_def using b1 b2 by (intro ymd2ord_earlier_year) simp_all
  next
    case 2
    then show ?thesis
      unfolding toordinal_def using b1 b2 by (simp add: ymd2ord_same_year)
  next
    case 3
    then show ?thesis
      unfolding toordinal_def by (simp add: ymd2ord_same_month)
  next
    case 4
    then have "year t2 + 1 \<le> year t1" by simp
    with lt' b1 b2 d1 d2 show ?thesis by linarith
  next
    case 5
    then have "month t2 + 1 \<le> month t1" by simp
    with 5 lt' b1 b2 d1 d2 show ?thesis by linarith
  next
    case 6
    with lt' show ?thesis by simp
  qed
qed

lemma seconds_of_day_le:
  assumes v1: "valid_datetime t1" and v2: "valid_datetime t2"
    and le: "(hour t1 * 100 + minute t1) * 100 + second t1
               \<le> (hour t2 * 100 + minute t2) * 100 + second t2"
  shows "seconds_of_day t1 \<le> seconds_of_day t2"
proof -
  from v1 have b1: "0 \<le> minute t1" "minute t1 \<le> 59" "0 \<le> second t1" "second t1 \<le> 59"
    by (simp_all add: valid_datetime_def)
  from v2 have b2: "0 \<le> minute t2" "minute t2 \<le> 59" "0 \<le> second t2" "second t2 \<le> 59"
    by (simp_all add: valid_datetime_def)
  from le have le': "hour t1 * 10000 + minute t1 * 100 + second t1
      \<le> hour t2 * 10000 + minute t2 * 100 + second t2"
    by (simp add: algebra_simps)
  consider "hour t1 + 1 \<le> hour t2" | "hour t1 = hour t2" "minute t1 + 1 \<le> minute t2"
    | "hour t1 = hour t2" "minute t1 = minute t2"
    | "hour t2 + 1 \<le> hour t1" | "hour t1 = hour t2" "minute t2 + 1 \<le> minute t1"
    by linarith
  then show ?thesis
  proof cases
    case 1
    with b1 b2 show ?thesis unfolding seconds_of_day_def by linarith
  next
    case 2
    with b1 b2 show ?thesis unfolding seconds_of_day_def by linarith
  next
    case 3
    with le' show ?thesis unfolding seconds_of_day_def by linarith
  next
    case 4
    with le' b1 b2 show ?thesis by linarith
  next
    case 5
    with le' b1 b2 show ?thesis by linarith
  qed
qed

lemma seconds_of_day_bounds:
  assumes "valid_datetime t"
  shows "0 \<le> seconds_of_day t" and "seconds_of_day t \<le> 86399"
  using assms unfolding valid_datetime_def seconds_of_day_def by linarith+

lemma time_number_bounds:
  assumes "valid_datetime t"
  shows "0 \<le> (hour t * 100 + minute t) * 100 + second t"
    and "(hour t * 100 + minute t) * 100 + second t \<le> 235959"
  using assms unfolding valid_datetime_def by (simp_all add: algebra_simps)

lemma stamp_number_split:
  "stamp_number t = ((year t * 100 + month t) * 100 + day t) * 1000000
                      + ((hour t * 100 + minute t) * 100 + second t)"
  by (simp add: stamp_number_def algebra_simps)

lemma same_date:
  assumes v1: "valid_datetime t1" and v2: "valid_datetime t2"
    and eq: "(year t1 * 100 + month t1) * 100 + day t1 = (year t2 * 100 + month t2) * 100 + day t2"
  shows "toordinal t1 = toordinal t2"
proof -
  from v1 have b1: "1 \<le> month t1" "month t1 \<le> 12" "1 \<le> day t1"
    "day t1 \<le> days_in_month (year t1) (month t1)"
    by (simp_all add: valid_datetime_def)
  from v2 have b2: "1 \<le> month t2" "month t2 \<le> 12" "1 \<le> day t2"
    "day t2 \<le> days_in_month (year t2) (month t2)"
    by (simp_all add: valid_datetime_def)
  have dim: "days_in_month y m \<le> 31" for y m
    by (simp add: days_in_month_def)
  from b1 dim [of "year t1" "month t1"] have d1: "day t1 \<le> 31" by linarith
  from b2 dim [of "year t2" "month t2"] have d2: "day t2 \<le> 31" by linarith
  from eq have eq': "year t1 * 10000 + month t1 * 100 + day t1
      = year t2 * 10000 + month t2 * 100 + day t2"
    by (simp add: algebra_simps)
  consider "year t1 + 1 \<le> year t2" | "year t2 + 1 \<le> year t1" | "year t1 = year t2"
    by linarith
  then have y: "year t1 = year t2"
  proof cases
    case 1 with eq' b1 b2 d1 d2 show ?thesis by linarith
  next
    case 2 with eq' b1 b2 d1 d2 show ?thesis by linarith
  next
    case 3 then show ?thesis .
  qed
  consider "month t1 + 1 \<le> month t2" | "month t2 + 1 \<le> month t1" | "month t1 = month t2"
    by linarith
  then have m: "month t1 = month t2"
  proof cases
    case 1 with eq' y b1 b2 d1 d2 show ?thesis by linarith
  next
    case 2 with eq' y b1 b2 d1 d2 show ?thesis by linarith
  next
    case 3 then show ?thesis .
  qed
  from eq' y m have "day t1 = day t2" by simp
  with y m show ?thesis by (simp add: toordinal_def)
qed

text \<open>
  For valid datetimes, the order of the stamp numbers is the order in time.
\<close>

lemma stamp_number_order:
  assumes v1: "valid_datetime t1" and v2: "valid_datetime t2"
    and le: "stamp_number t1 \<le> stamp_number t2"
  shows "timestamp_seconds t1 \<le> timestamp_seconds t2"
proof -
  define D1 where "D1 = (year t1 * 100 + month t1) * 100 + day t1"
  define D2 where "D2 = (year t2 * 100 + month t2) * 100 + day t2"
  define T1 where "T1 = (hour t1 * 100 + minute t1) * 100 + second t1"
  define T2 where "T2 = (hour t2 * 100 + minute t2) * 100 + second t2"
  have n1: "stamp_number t1 = D1 * 1000000 + T1"
    unfolding D1_def T1_def by (rule stamp_number_split)
  have n2: "stamp_number t2 = D2 * 1000000 + T2"
    unfolding D2_def T2_def by (rule stamp_number_split)
  have tb1: "0 \<le> T1" "T1 \<le> 235959"
    unfolding T1_def using time_number_bounds [OF v1] by simp_all
  have tb2: "0 \<le> T2" "T2 \<le> 235959"
    unfolding T2_def using time_number_bounds [OF v2] by simp_all
  have sb1: "0 \<le> seconds_of_day t1" "seconds_of_day t1 \<le> 86399"
    using seconds_of_day_bounds [OF v1] by simp_all
  have sb2: "0 \<le> seconds_of_day t2" "seconds_of_day t2 \<le> 86399"
    using seconds_of_day_bounds [OF v2] by simp_all
  consider "D1 + 1 \<le> D2" | "D1 = D2" | "D2 + 1 \<le> D1" by linarith
  then show ?thesis
  proof cases
    case 1
    then have "D1 < D2" by simp
    then have "toordinal t1 < toordinal t2"
      unfolding D1_def D2_def by (rule toordinal_less [OF v1 v2])
    then have "toordinal t1 + 1 \<le> toordinal t2" by simp
    with sb1 sb2 show ?thesis unfolding timestamp_seconds_def by linarith
  next
    case 2
    then have "toordinal t1 = toordinal t2"
      unfolding D1_def D2_def by (rule same_date [OF v1 v2])
    moreover from 2 le n1 n2 have "T1 \<le> T2" by simp
    then have "seconds_of_day t1 \<le> seconds_of_day t2"
      unfolding T1_def T2_def by (rule seconds_of_day_le [OF v1 v2])
    ultimately show ?thesis unfolding timestamp_seconds_def by simp
  next
    case 3
    with le n1 n2 tb1 tb2 show ?thesis by linarith
  qed
qed

subsection \<open>Digit strings\<close>

lemma foldl_digits:
  "foldl (\<lambda>a c. 10 * a + digit_val c) a s = a * 10 ^ length s + foldl (\<lambda>a c. 10 * a + digit_val c) 0 s"
proof (induction s arbitrary: a)
  case Nil
  show ?case by simp
next
  case (Cons c s)
  have "foldl (\<lambda>a c. 10 * a + digit_val c) a (c # s)
          = foldl (\<lambda>a c. 10 * a + digit_val c) (10 * a + digit_val c) s"
    by simp
  also have "\<dots> = (10 * a + digit_val c) * 10 ^ length s + foldl (\<lambda>a c. 10 * a + digit_val c) 0 s"
    by (rule Cons.IH)
  also have "foldl (\<lambda>a c. 10 * a + digit_val c) 0 (c # s)
          = digit_val c * 10 ^ length s + foldl (\<lambda>a c. 10 * a + digit_val c) 0 s"
    using Cons.IH [of "digit_val c"] by simp
  then have "foldl (\<lambda>a c. 10 * a + digit_val c) 0 s
          = foldl (\<lambda>a c. 10 * a + digit_val c) 0 (c # s) - digit_val c * 10 ^ length s"
    by simp
  finally show ?case by (simp add: algebra_simps)
qed

lemma digits_val_Cons: "digits_val (c # s) = digit_val c * 10 ^ length s + digits_val s"
  unfolding digits_val_def using foldl_digits [of "digit_val c" s] by simp

lemma digits_val_append: "digits_val (a @ b) = digits_val a * 10 ^ length b + digits_val b"
  unfolding digits_val_def using foldl_digits [of "foldl (\<lambda>a c. 10 * a + digit_val c) 0 a" b]
  by simp

lemma is_digit_val: "is_digit c \<Longrightarrow> 0 \<le> digit_val c \<and> digit_val c \<le> 9"
  by (auto simp: is_digit_def digit_val_def)

lemma digits_val_bounds:
  "list_all is_digit s \<Longrightarrow> 0 \<le> digits_val s \<and> digits_val s < 10 ^ length s"
proof (induction s)
  case Nil
  show ?case by (simp add: digits_val_def)
next
  case (Cons c s)
  then have c: "0 \<le> digit_val c" "digit_val c \<le> 9" and s: "0 \<le> digits_val s"
    "digits_val s < 10 ^ length s"
    using is_digit_val [of c] by simp_all
  define P :: int where "P = 10 ^ length s"
  have p: "0 < P" by (simp add: P_def)
  have hi: "digit_val c * P \<le> 9 * P"
    using c(2) p by (intro mult_right_mono) simp_all
  have lo: "0 \<le> digit_val c * P"
    using c(1) p by simp
  have v: "digits_val (c # s) = digit_val c * P + digits_val s"
    by (simp add: digits_val_Cons P_def)
  have q: "(10::int) ^ length (c # s) = 10 * P"
    by (simp add: P_def)
  from s have s': "digits_val s < P" by (simp add: P_def)
  show ?case
    unfolding v q using hi lo s(1) s' by linarith
qed

lemma char_less_digit_val: "c1 < c2 \<longleftrightarrow> digit_val c1 < digit_val c2"
  by (simp add: less_char_def digit_val_def)

lemma char_eq_digit_val: "c1 = c2 \<longleftrightarrow> digit_val c1 = digit_val c2"
  by (auto simp: digit_val_def)

text \<open>Digit strings of one length are ordered as their numbers are.\<close>

lemma digit_string_order:
  assumes "length s1 = length s2" and "list_all is_digit s1" and "list_all is_digit s2"
    and "s1 \<le> s2"
  shows "digits_val s1 \<le> digits_val s2"
  using assms
proof (induction s1 s2 rule: list_induct2)
  case Nil
  show ?case by simp
next
  case (Cons c1 s1 c2 s2)
  from Cons.prems have d1: "list_all is_digit s1" and d2: "list_all is_digit s2"
    by simp_all
  have b1: "0 \<le> digits_val s1" "digits_val s1 < 10 ^ length s1"
    using digits_val_bounds [OF d1] by simp_all
  have b2: "0 \<le> digits_val s2" "digits_val s2 < 10 ^ length s2"
    using digits_val_bounds [OF d2] by simp_all
  from Cons.prems(3) consider "c1 < c2" | "c1 = c2" "s1 \<le> s2"
    by auto
  then show ?case
  proof cases
    case 1
    then have "digit_val c1 + 1 \<le> digit_val c2"
      by (simp add: char_less_digit_val)
    define P :: int where "P = 10 ^ length s1"
    have p: "0 \<le> P" by (simp add: P_def)
    from \<open>digit_val c1 + 1 \<le> digit_val c2\<close>
    have "(digit_val c1 + 1) * P \<le> digit_val c2 * P"
      using p by (intro mult_right_mono) simp_all
    then have step: "digit_val c1 * P + P \<le> digit_val c2 * P"
      by (simp add: algebra_simps)
    have v1: "digits_val (c1 # s1) = digit_val c1 * P + digits_val s1"
      by (simp add: digits_val_Cons P_def)
    have v2: "digits_val (c2 # s2) = digit_val c2 * P + digits_val s2"
      using Cons.hyps by (simp add: digits_val_Cons P_def)
    from b1 have b1': "digits_val s1 < P" by (simp add: P_def)
    show ?thesis
      unfolding v1 v2 using step b1' b2(1) by linarith
  next
    case 2
    with Cons.IH [OF d1 d2] have "digits_val s1 \<le> digits_val s2" by simp
    with 2 Cons.hyps show ?thesis by (simp add: digits_val_Cons)
  qed
qed

subsection \<open>What strftime writes\<close>

lemma div_10_bounds:
  assumes "0 \<le> (v::int)" and "v < 100"
  shows "0 \<le> v div 10" and "v div 10 < 10"
proof -
  show "0 \<le> v div 10" using assms(1) by (simp add: pos_imp_zdiv_nonneg_iff)
  have "v div 10 \<le> 99 div 10" using assms(2) by (intro zdiv_mono1) simp_all
  then show "v div 10 < 10" by simp
qed

lemma pad2_split:
  assumes "0 \<le> v" and "v < 100"
  shows "\<exists>a b. a < 10 \<and> b < 10 \<and> v = 10 * int a + int b \<and> pad2 v = [digit_char a, digit_char b]"
proof (intro exI conjI)
  note d = div_10_bounds [OF assms]
  show "nat (v div 10) < 10" using d by simp
  show "nat (v mod 10) < 10" by simp
  show "v = 10 * int (nat (v div 10)) + int (nat (v mod 10))" using d by simp
  show "pad2 v = [digit_char (nat (v div 10)), digit_char (nat (v mod 10))]"
    by (simp add: pad2_def)
qed

lemma pad2_length: "length (pad2 v) = 2"
  by (simp add: pad2_def)

lemma pad2_digits:
  assumes "0 \<le> v" and "v < 100"
  shows "list_all is_digit (pad2 v)" and "digits_val (pad2 v) = v"
proof -
  from pad2_split [OF assms] obtain a b where ab: "a < 10" "b < 10" "v = 10 * int a + int b"
    "pad2 v = [digit_char a, digit_char b]"
    by blast
  show "list_all is_digit (pad2 v)"
    using ab by (simp add: is_digit_digit_char)
  show "digits_val (pad2 v) = v"
    using ab by (simp add: digits_val_def digit_val_digit_char)
qed

lemma digits_val_pad2_append:
  assumes "0 \<le> v" and "v < 100"
  shows "digits_val (pad2 v @ r) = v * 10 ^ length r + digits_val r"
  using pad2_digits(2) [OF assms] by (simp add: digits_val_append)

lemma year_parts:
  assumes "1900 \<le> (y::int)" and "y \<le> 9999"
  shows "0 \<le> y div 100" "y div 100 < 100" "0 \<le> y mod 100" "y mod 100 < 100"
proof -
  show "0 \<le> y div 100" using assms(1) by (simp add: pos_imp_zdiv_nonneg_iff)
  have "y div 100 \<le> 9999 div 100" using assms(2) by (intro zdiv_mono1) simp_all
  then show "y div 100 < 100" by simp
  show "0 \<le> y mod 100" by simp
  show "y mod 100 < 100" by simp
qed

lemma strftime_digits:
  assumes v: "valid_datetime t" and s: "strftime t = Inr s"
  shows "length s = 14" and "list_all is_digit s" and "digits_val s = stamp_number t"
proof -
  from s have y: "1900 \<le> year t"
    by (simp add: strftime_def split: if_splits)
  from v have y': "year t \<le> 9999" by (simp add: valid_datetime_def)
  note yp = year_parts [OF y y']
  have dim: "days_in_month (year t) (month t) \<le> 31"
    by (simp add: days_in_month_def)
  from v dim have f: "0 \<le> month t" "month t < 100" "0 \<le> day t" "day t < 100"
    "0 \<le> hour t" "hour t < 100" "0 \<le> minute t" "minute t < 100"
    "0 \<le> second t" "second t < 100"
    unfolding valid_datetime_def by linarith+
  from s y have str: "s = pad2 (year t div 100) @ pad2 (year t mod 100) @ pad2 (month t)
      @ pad2 (day t) @ pad2 (hour t) @ pad2 (minute t) @ pad2 (second t)"
    by (simp add: strftime_def)
  show "length s = 14"
    by (simp add: str pad2_length)
  show "list_all is_digit s"
    unfolding str list_all_append
    using pad2_digits(1) [OF yp(1,2)] pad2_digits(1) [OF yp(3,4)] pad2_digits(1) [OF f(1,2)]
      pad2_digits(1) [OF f(3,4)] pad2_digits(1) [OF f(5,6)] pad2_digits(1) [OF f(7,8)]
      pad2_digits(1) [OF f(9,10)]
    by simp
  define q where "q = year t div 100"
  define r where "r = year t mod 100"
  have qr: "year t = q * 100 + r" by (simp add: q_def r_def)
  have "digits_val s = q * 1000000000000 + (r * 10000000000
      + (month t * 100000000 + (day t * 1000000 + (hour t * 10000 + (minute t * 100 + second t)))))"
    unfolding str q_def r_def
    by (simp add: digits_val_pad2_append [OF yp(1,2)] digits_val_pad2_append [OF yp(3,4)]
        digits_val_pad2_append [OF f(1,2)] digits_val_pad2_append [OF f(3,4)]
        digits_val_pad2_append [OF f(5,6)] digits_val_pad2_append [OF f(7,8)]
        pad2_digits(2) [OF f(9,10)] pad2_length)
  then show "digits_val s = stamp_number t"
    unfolding stamp_number_def qr by (simp add: algebra_simps)
qed

text \<open>
  Keys written by \<open>strftime\<close> are ordered as strings the way their datetimes are
  ordered in time.
\<close>

lemma strftime_order:
  assumes "valid_datetime t1" and "strftime t1 = Inr s1"
    and "valid_datetime t2" and "strftime t2 = Inr s2"
    and "s1 \<le> s2"
  shows "timestamp_seconds t1 \<le> timestamp_seconds t2"
proof -
  note a = strftime_digits [OF assms(1,2)] and b = strftime_digits [OF assms(3,4)]
  have "digits_val s1 \<le> digits_val s2"
    using a(1) b(1) a(2) b(2) assms(5) by (intro digit_string_order) simp_all
  then have "stamp_number t1 \<le> stamp_number t2"
    by (simp only: a(3) b(3))
  with assms(1,3) show ?thesis by (rule stamp_number_order)
qed

subsection \<open>strptime reads back what strftime writes\<close>

lemma two_chars_hit:
  assumes "a < 10" and "b < 10" and "digit_char a \<in> set as" and "digit_char b \<in> set bs"
  shows "two_chars as bs (digit_char a # digit_char b # r) = [(10 * int a + int b, r)]"
  using assms by (simp add: two_chars_def digit_val_digit_char)

lemma two_chars_miss:
  assumes "digit_char a \<notin> set as"
  shows "two_chars as bs (digit_char a # c # r) = []"
  using assms by (simp add: two_chars_def)

lemma digit_char_small:
  "digit_char 0 = CHR ''0''" "digit_char 1 = CHR ''1''" "digit_char 2 = CHR ''2''"
  "digit_char 3 = CHR ''3''"
  by (simp_all add: digit_char_def)

lemma digit_char_lt2: "n < 2 \<Longrightarrow> digit_char n \<in> set ''01''"
  using lt10_cases [of n] by (auto simp: digit_char_def)

lemma digit_char_lt3: "n < 3 \<Longrightarrow> digit_char n \<in> set ''012''"
  using lt10_cases [of n] by (auto simp: digit_char_def)

lemma digit_char_lt4: "n < 4 \<Longrightarrow> digit_char n \<in> set ''0123''"
  using lt10_cases [of n] by (auto simp: digit_char_def)

lemma digit_char_lt6: "n < 6 \<Longrightarrow> digit_char n \<in> set ''012345''"
  using lt10_cases [of n] by (auto simp: digit_char_def)

lemma digit_char_lt6_not6: "n < 6 \<Longrightarrow> digit_char n \<notin> set ''6''"
  using lt10_cases [of n] by (auto simp: digit_char_def)

lemma digit_char_lt10: "n < 10 \<Longrightarrow> digit_char n \<in> set ''0123456789''"
  using lt10_cases [of n] by (auto simp: digit_char_def)

lemma digit_char_pos: "1 \<le> n \<Longrightarrow> n < 10 \<Longrightarrow> digit_char n \<in> set ''123456789''"
  using lt10_cases [of n] by (auto simp: digit_char_def)

lemma two_chars_pad2_hit:
  assumes "a < 10" and "b < 10" and "v = 10 * int a + int b"
    and "pad2 v = [digit_char a, digit_char b]"
    and "digit_char a \<in> set as" and "digit_char b \<in> set bs"
  shows "two_chars as bs (pad2 v @ r) = [(v, r)]"
proof -
  have "two_chars as bs (pad2 v @ r) = two_chars as bs (digit_char a # digit_char b # r)"
    by (simp only: assms(4) append_Cons append_Nil)
  also have "\<dots> = [(10 * int a + int b, r)]"
    by (rule two_chars_hit [OF assms(1,2,5,6)])
  also have "\<dots> = [(v, r)]"
    by (simp only: assms(3))
  finally show ?thesis .
qed

lemma two_chars_pad2_miss:
  assumes "pad2 v = [digit_char a, digit_char b]" and "digit_char a \<notin> set as"
  shows "two_chars as bs (pad2 v @ r) = []"
proof -
  have "two_chars as bs (pad2 v @ r) = two_chars as bs (digit_char a # digit_char b # r)"
    by (simp only: assms(1) append_Cons append_Nil)
  also have "\<dots> = []"
    by (rule two_chars_miss [OF assms(2)])
  finally show ?thesis .
qed

lemma re_M_pad2:
  assumes "0 \<le> v" and "v \<le> 59"
  shows "\<exists>more. re_M (pad2 v @ r) = (v, r) # more"
proof -
  from assms have "v < 100" by simp
  from pad2_split [OF assms(1) this] obtain a b where ab: "a < 10" "b < 10"
    "v = 10 * int a + int b" "pad2 v = [digit_char a, digit_char b]"
    by blast
  from ab(3) assms(2) have a: "a < 6" by linarith
  have "two_chars ''012345'' ''0123456789'' (pad2 v @ r) = [(v, r)]"
    using ab digit_char_lt6 [OF a] digit_char_lt10 [OF ab(2)] by (rule two_chars_pad2_hit)
  then show ?thesis
    unfolding re_M_def by simp
qed

lemma re_S_pad2:
  assumes "0 \<le> v" and "v \<le> 59"
  shows "\<exists>more. re_S (pad2 v @ r) = (v, r) # more"
proof -
  from assms have "v < 100" by simp
  from pad2_split [OF assms(1) this] obtain a b where ab: "a < 10" "b < 10"
    "v = 10 * int a + int b" "pad2 v = [digit_char a, digit_char b]"
    by blast
  from ab(3) assms(2) have a: "a < 6" by linarith
  have "two_chars ''6'' ''01'' (pad2 v @ r) = []"
    using ab(4) digit_char_lt6_not6 [OF a] by (rule two_chars_pad2_miss)
  moreover have "two_chars ''012345'' ''0123456789'' (pad2 v @ r) = [(v, r)]"
    using ab digit_char_lt6 [OF a] digit_char_lt10 [OF ab(2)] by (rule two_chars_pad2_hit)
  ultimately show ?thesis
    unfolding re_S_def by simp
qed

lemma re_H_pad2:
  assumes "0 \<le> v" and "v \<le> 23"
  shows "\<exists>more. re_H (pad2 v @ r) = (v, r) # more"
proof -
  from assms have "v < 100" by simp
  from pad2_split [OF assms(1) this] obtain a b where ab: "a < 10" "b < 10"
    "v = 10 * int a + int b" "pad2 v = [digit_char a, digit_char b]"
    by blast
  from ab(3) assms(2) consider "a = 2" "b < 4" | "a < 2" by linarith
  then show ?thesis
  proof cases
    case 1
    have "digit_char a \<in> set ''2''" using 1 by (simp add: digit_char_def)
    then have "two_chars ''2'' ''0123'' (pad2 v @ r) = [(v, r)]"
      using ab digit_char_lt4 [OF 1(2)] by (intro two_chars_pad2_hit)
    then show ?thesis
      unfolding re_H_def by simp
  next
    case 2
    have in01: "digit_char a \<in> set ''01''" using 2 by (rule digit_char_lt2)
    have not2: "digit_char a \<notin> set ''2''"
      using 2 lt10_cases [of a] by (auto simp: digit_char_def)
    have "two_chars ''2'' ''0123'' (pad2 v @ r) = []"
      using ab(4) not2 by (rule two_chars_pad2_miss)
    moreover have "two_chars ''01'' ''0123456789'' (pad2 v @ r) = [(v, r)]"
      using ab in01 digit_char_lt10 [OF ab(2)] by (rule two_chars_pad2_hit)
    ultimately show ?thesis
      unfolding re_H_def by simp
  qed
qed

lemma re_d_pad2:
  assumes "1 \<le> v" and "v \<le> 31"
  shows "\<exists>more. re_d (pad2 v @ r) = (v, r) # more"
proof -
  from assms have "0 \<le> v" "v < 100" by simp_all
  from pad2_split [OF this] obtain a b where ab: "a < 10" "b < 10"
    "v = 10 * int a + int b" "pad2 v = [digit_char a, digit_char b]"
    by blast
  from ab(3) assms consider "a = 3" "b < 2" | "a = 1 \<or> a = 2" | "a = 0" "1 \<le> b" by linarith
  then show ?thesis
  proof cases
    case 1
    have "digit_char a \<in> set ''3''" using 1 by (simp add: digit_char_def)
    then have "two_chars ''3'' ''01'' (pad2 v @ r) = [(v, r)]"
      using ab digit_char_lt2 [OF 1(2)] by (intro two_chars_pad2_hit)
    then show ?thesis
      unfolding re_d_def by simp
  next
    case 2
    then have in12: "digit_char a \<in> set ''12''" and not3: "digit_char a \<notin> set ''3''"
      by (auto simp: digit_char_def)
    have "two_chars ''3'' ''01'' (pad2 v @ r) = []"
      using ab(4) not3 by (rule two_chars_pad2_miss)
    moreover have "two_chars ''12'' ''0123456789'' (pad2 v @ r) = [(v, r)]"
      using ab in12 digit_char_lt10 [OF ab(2)] by (rule two_chars_pad2_hit)
    ultimately show ?thesis
      unfolding re_d_def by simp
  next
    case 3
    then have in0: "digit_char a \<in> set ''0''" and not3: "digit_char a \<notin> set ''3''"
      and not12: "digit_char a \<notin> set ''12''"
      by (simp_all add: digit_char_def)
    have "two_chars ''3'' ''01'' (pad2 v @ r) = []"
      using ab(4) not3 by (rule two_chars_pad2_miss)
    moreover have "two_chars ''12'' ''0123456789'' (pad2 v @ r) = []"
      using ab(4) not12 by (rule two_chars_pad2_miss)
    moreover have "two_chars ''0'' ''123456789'' (pad2 v @ r) = [(v, r)]"
      using ab in0 digit_char_pos [OF 3(2) ab(2)] by (rule two_chars_pad2_hit)
    ultimately show ?thesis
      unfolding re_d_def by simp
  qed
qed

lemma re_m_pad2:
  assumes "1 \<le> v" and "v \<le> 12"
  shows "\<exists>more. re_m (pad2 v @ r) = (v, r) # more"
proof -
  from assms have "0 \<le> v" "v < 100" by simp_all
  from pad2_split [OF this] obtain a b where ab: "a < 10" "b < 10"
    "v = 10 * int a + int b" "pad2 v = [digit_char a, digit_char b]"
    by blast
  from ab(3) assms consider "a = 1" "b < 3" | "a = 0" "1 \<le> b" by linarith
  then show ?thesis
  proof cases
    case 1
    have "digit_char a \<in> set ''1''" using 1 by (simp add: digit_char_def)
    then have "two_chars ''1'' ''012'' (pad2 v @ r) = [(v, r)]"
      using ab digit_char_lt3 [OF 1(2)] by (intro two_chars_pad2_hit)
    then show ?thesis
      unfolding re_m_def by simp
  next
    case 2
    then have in0: "digit_char a \<in> set ''0''" and not1: "digit_char a \<notin> set ''1''"
      by (simp_all add: digit_char_def)
    have "two_chars ''1'' ''012'' (pad2 v @ r) = []"
      using ab(4) not1 by (rule two_chars_pad2_miss)
    moreover have "two_chars ''0'' ''123456789'' (pad2 v @ r) = [(v, r)]"
      using ab in0 digit_char_pos [OF 2(2) ab(2)] by (rule two_chars_pad2_hit)
    ultimately show ?thesis
      unfolding re_m_def by simp
  qed
qed

lemma re_Y_pad2:
  assumes "0 \<le> q" and "q < 100" and "0 \<le> p" and "p < 100"
  shows "re_Y (pad2 q @ pad2 p @ r) = [(q * 100 + p, r)]"
proof -
  from pad2_split [OF assms(1,2)] obtain a b where ab: "a < 10" "b < 10"
    "q = 10 * int a + int b" "pad2 q = [digit_char a, digit_char b]"
    by blast
  from pad2_split [OF assms(3,4)] obtain c d where cd: "c < 10" "d < 10"
    "p = 10 * int c + int d" "pad2 p = [digit_char c, digit_char d]"
    by blast
  have dg: "is_digit (digit_char a)" "is_digit (digit_char b)" "is_digit (digit_char c)"
    "is_digit (digit_char d)"
    using ab(1,2) cd(1,2) by (simp_all add: is_digit_digit_char)
  have dv: "digit_val (digit_char a) = int a" "digit_val (digit_char b) = int b"
    "digit_val (digit_char c) = int c" "digit_val (digit_char d) = int d"
    using ab(1,2) cd(1,2) by (simp_all add: digit_val_digit_char)
  have "re_Y (pad2 q @ pad2 p @ r)
          = re_Y (digit_char a # digit_char b # digit_char c # digit_char d # r)"
    by (simp only: ab(4) cd(4) append_Cons append_Nil)
  also have "\<dots> = [(10 * (10 * (10 * int a + int b) + int c) + int d, r)]"
    by (simp add: re_Y_def dg dv digits_val_def)
  also have "10 * (10 * (10 * int a + int b) + int c) + int d = q * 100 + p"
    by (simp add: ab(3) cd(3))
  finally show ?thesis .
qed

lemma datetime_fields:
  "\<lparr>year = year t, month = month t, day = day t, hour = hour t, minute = minute t,
     second = second t\<rparr> = (t :: datetime)"
  by (cases t) simp

lemma strptime_strftime:
  assumes v: "valid_datetime t" and s: "strftime t = Inr s"
  shows "strptime s = Some t"
proof -
  from s have y: "1900 \<le> year t"
    by (simp add: strftime_def split: if_splits)
  from v have y': "year t \<le> 9999" by (simp add: valid_datetime_def)
  note yp = year_parts [OF y y']
  have dim: "days_in_month (year t) (month t) \<le> 31"
    by (simp add: days_in_month_def)
  from v dim have f: "1 \<le> month t" "month t \<le> 12" "1 \<le> day t" "day t \<le> 31"
    "0 \<le> hour t" "hour t \<le> 23" "0 \<le> minute t" "minute t \<le> 59"
    "0 \<le> second t" "second t \<le> 59"
    unfolding valid_datetime_def by linarith+
  let ?r6 = "pad2 (second t)"
  let ?r5 = "pad2 (minute t) @ ?r6"
  let ?r4 = "pad2 (hour t) @ ?r5"
  let ?r3 = "pad2 (day t) @ ?r4"
  let ?r2 = "pad2 (month t) @ ?r3"
  from s y have str: "s = pad2 (year t div 100) @ pad2 (year t mod 100) @ ?r2"
    by (simp add: strftime_def)
  have "year t div 100 * 100 + year t mod 100 = year t" by simp
  with re_Y_pad2 [OF yp, of ?r2]
  have Y: "re_Y (pad2 (year t div 100) @ pad2 (year t mod 100) @ ?r2) = [(year t, ?r2)]"
    by (simp only:)
  from re_m_pad2 [OF f(1,2), of ?r3] obtain mm where
    m: "re_m ?r2 = (month t, ?r3) # mm" by blast
  from re_d_pad2 [OF f(3,4), of ?r4] obtain md where
    d: "re_d ?r3 = (day t, ?r4) # md" by blast
  from re_H_pad2 [OF f(5,6), of ?r5] obtain mH where
    H: "re_H ?r4 = (hour t, ?r5) # mH" by blast
  from re_M_pad2 [OF f(7,8), of ?r6] obtain mM where
    M: "re_M ?r5 = (minute t, ?r6) # mM" by blast
  from re_S_pad2 [OF f(9,10), of "[]"] obtain mS where
    S: "re_S ?r6 = (second t, []) # mS" by auto
  have "\<exists>more. format_regex s = (t, []) # more"
    unfolding format_regex_def str Y
    by (simp add: m d H M S datetime_fields)
  then obtain more where "format_regex s = (t, []) # more" by blast
  with v show ?thesis by (simp add: strptime_def)
qed

subsection \<open>The intervals of an ordered event stream\<close>

lemma yield_indices_range:
  assumes "x \<in> set (yield_indices filter_off ots)"
  shows "2 \<le> x" and "x < length ots"
  using assms by (simp_all add: yield_indices_def)

lemma yield_indices_length:
  "length (yield_indices filter_off ots) \<le> length ots - 2"
proof -
  have "length (yield_indices filter_off ots) \<le> length (rev [2..<length ots])"
    unfolding yield_indices_def by (rule length_filter_le)
  then show ?thesis by simp
qed

lemma yield_indices_descending:
  "sorted_wrt (\<lambda>x y. x > y) (yield_indices filter_off ots)"
proof -
  have "sorted_wrt (\<lambda>x y. x > y) (rev [2..<length ots])"
    by (simp add: sorted_wrt_rev)
  then show ?thesis
    unfolding yield_indices_def by (rule sorted_wrt_filter)
qed

lemma collect_all_Inr:
  assumes "\<forall>x\<in>set xs. \<exists>v. f x = Inr v \<and> P v"
  shows "\<exists>vs. collect (map f xs) = Inr vs \<and> map Inr vs = map f xs
           \<and> (\<forall>v\<in>set vs. P v) \<and> length vs = length xs"
  using assms
proof (induction xs)
  case Nil
  show ?case by simp
next
  case (Cons x xs)
  from Cons.prems obtain v where v: "f x = Inr v" "P v" by auto
  from Cons.prems have "\<forall>x\<in>set xs. \<exists>v. f x = Inr v \<and> P v" by simp
  from Cons.IH [OF this] obtain vs where vs: "collect (map f xs) = Inr vs"
    "map Inr vs = map f xs" "\<forall>v\<in>set vs. P v" "length vs = length xs"
    by blast
  have "collect (map f (x # xs)) = Inr (v # vs)"
    by (simp add: v(1) vs(1))
  moreover have "map Inr (v # vs) = map f (x # xs)"
    by (simp add: v(1) vs(2))
  moreover have "\<forall>u\<in>set (v # vs). P u"
    using v(2) vs(3) by simp
  moreover have "length (v # vs) = length (x # xs)"
    using vs(4) by simp
  ultimately show ?case by blast
qed

lemma timing_at_ordered:
  assumes srt: "sorted (map fst ots)"
    and keys: "\<forall>e\<in>set ots. \<exists>t. valid_datetime t \<and> strftime t = Inr (fst e)"
    and x: "1 \<le> x" "x < length ots"
  shows "\<exists>iv. timing_at ots x = Inr iv \<and> 0 \<le> time_delta iv"
proof -
  from x have mem: "ots ! x \<in> set ots" "ots ! (x - 1) \<in> set ots" by simp_all
  from keys mem(1) obtain e where e: "valid_datetime e" "strftime e = Inr (fst (ots ! x))"
    by blast
  from keys mem(2) obtain s where s: "valid_datetime s" "strftime s = Inr (fst (ots ! (x - 1)))"
    by blast
  have pe: "strptime (fst (ots ! x)) = Some e"
    using e by (rule strptime_strftime)
  have ps: "strptime (fst (ots ! (x - 1))) = Some s"
    using s by (rule strptime_strftime)
  have "map fst ots ! (x - 1) \<le> map fst ots ! x"
    using srt x by (intro sorted_nth_mono) simp_all
  with x have "fst (ots ! (x - 1)) \<le> fst (ots ! x)" by simp
  with s e have "timestamp_seconds s \<le> timestamp_seconds e"
    by (rule strftime_order)
  then show ?thesis
    by (simp add: timing_at_Some [OF pe ps])
qed

lemma ordered_stream_sorted:
  "sorted (map fst (get_ordered_activity_timestamps localtime_activities))"
  "set (get_ordered_activity_timestamps localtime_activities) = set localtime_activities"
  by (simp_all add: get_ordered_activity_timestamps_def)

lemma set_dict_set: "set (dict_set k v d) \<subseteq> insert (k, v) (set d)"
proof (induction d)
  case Nil
  show ?case by simp
next
  case (Cons p d)
  obtain k' v' where p: "p = (k', v')" by (cases p)
  show ?case
  proof (cases "k' = k")
    case True
    then show ?thesis by (auto simp: p)
  next
    case False
    then show ?thesis using Cons.IH by (auto simp: p)
  qed
qed

lemma strptime_valid: "strptime s = Some t \<Longrightarrow> valid_datetime t"
  by (auto simp: strptime_def split: list.splits if_splits)

text \<open>
  Every key of the mapping that the loader returns is written by \<open>strftime\<close> from
  a valid datetime, when the conversion to local time gives valid datetimes.
\<close>

lemma load_entries_keys:
  assumes zone: "\<And>u. valid_datetime u \<Longrightarrow> valid_datetime (to_zone u)"
    and run: "load_entries to_zone entries acc = (out, Inr d)"
    and acc: "\<forall>e\<in>set acc. \<exists>t. valid_datetime t \<and> strftime t = Inr (fst e)"
  shows "\<forall>e\<in>set d. \<exists>t. valid_datetime t \<and> strftime t = Inr (fst e)"
  using run acc
proof (induction entries arbitrary: acc)
  case Nil
  then show ?case by simp
next
  case (Cons entry entries)
  from Cons.prems(1) obtain ts a utc local_ts where
    parts: "split_on CHR '' '' (butlast entry) = [ts, a]"
    and utc: "strptime ts = Some utc"
    and loc: "strftime (to_zone utc) = Inr local_ts"
    and rest: "load_entries to_zone entries (dict_set local_ts a acc) = (out, Inr d)"
    by (auto split: list.splits option.splits sum.splits)
  have "valid_datetime (to_zone utc)"
    using utc by (intro zone strptime_valid)
  with loc have new: "\<exists>t. valid_datetime t \<and> strftime t = Inr local_ts" by blast
  have "\<forall>e\<in>set (dict_set local_ts a acc). \<exists>t. valid_datetime t \<and> strftime t = Inr (fst e)"
  proof
    fix e assume "e \<in> set (dict_set local_ts a acc)"
    with set_dict_set [of local_ts a acc] have "e = (local_ts, a) \<or> e \<in> set acc" by auto
    with new Cons.prems(2) show "\<exists>t. valid_datetime t \<and> strftime t = Inr (fst e)" by auto
  qed
  with rest show ?case by (rule Cons.IH)
qed

lemma loader_keys:
  assumes "\<And>u. valid_datetime u \<Longrightarrow> valid_datetime (to_zone u)"
    and "get_activities_in_localtime to_zone log_files = (out, Inr d)"
  shows "\<forall>e\<in>set (get_ordered_activity_timestamps d).
           \<exists>t. valid_datetime t \<and> strftime t = Inr (fst e)"
proof -
  have empty: "\<forall>e\<in>set ([] :: (string \<times> string) list).
                  \<exists>t. valid_datetime t \<and> strftime t = Inr (fst e)"
    by simp
  have "\<forall>e\<in>set d. \<exists>t. valid_datetime t \<and> strftime t = Inr (fst e)"
    using assms(1) assms(2) [unfolded get_activities_in_localtime_def] empty
    by (rule load_entries_keys)
  then show ?thesis by (simp add: ordered_stream_sorted(2))
qed

text \<open>
  C4. For an event stream of \<open>N \<ge> 2\<close> events, ordered by its timestamp keys as
  \<open>get_ordered_activity_timestamps\<close> orders it, with the keys written by \<open>strftime\<close>
  as the loader writes them: \<open>get_activity_timings\<close> yields at most \<open>N - 2\<close>
  intervals, every one with a duration of at least 0 seconds, and it yields them
  newest first: the yielded intervals are those of the event indices
  \<open>yield_indices\<close>, which descend, and so do their ending timestamps.
\<close>

theorem C4_ordered_stream_intervals:
  assumes srt: "sorted (map fst ots)"
    and keys: "\<forall>e\<in>set ots. \<exists>t. valid_datetime t \<and> strftime t = Inr (fst e)"
    and n: "2 \<le> length ots"
  shows "\<exists>ivs. get_activity_timings filter_off ots = Inr ivs
           \<and> int (length ivs) \<le> int (length ots) - 2
           \<and> (\<forall>iv\<in>set ivs. 0 \<le> time_delta iv)
           \<and> map Inr ivs = map (timing_at ots) (yield_indices filter_off ots)
           \<and> sorted_wrt (\<lambda>x y. x > y) (yield_indices filter_off ots)
           \<and> sorted_wrt (\<lambda>a b. a \<ge> b)
                 (map (\<lambda>x. fst (ots ! x)) (yield_indices filter_off ots))"
proof -
  let ?xs = "yield_indices filter_off ots"
  have "\<forall>x\<in>set ?xs. \<exists>iv. timing_at ots x = Inr iv \<and> 0 \<le> time_delta iv"
  proof
    fix x assume "x \<in> set ?xs"
    then have "2 \<le> x" "x < length ots" by (rule yield_indices_range)+
    then have "1 \<le> x" "x < length ots" by simp_all
    with srt keys show "\<exists>iv. timing_at ots x = Inr iv \<and> 0 \<le> time_delta iv"
      by (rule timing_at_ordered)
  qed
  from collect_all_Inr [OF this] obtain ivs where
    run: "collect (map (timing_at ots) ?xs) = Inr ivs"
    and each: "map Inr ivs = map (timing_at ots) ?xs"
    and pos: "\<forall>iv\<in>set ivs. 0 \<le> time_delta iv"
    and len: "length ivs = length ?xs"
    by blast
  have res: "get_activity_timings filter_off ots = Inr ivs"
    by (simp add: get_activity_timings_def run)
  have "length ivs \<le> length ots - 2"
    unfolding len by (rule yield_indices_length)
  with n have cnt: "int (length ivs) \<le> int (length ots) - 2" by linarith
  have desc: "sorted_wrt (\<lambda>x y. x > y) ?xs" by (rule yield_indices_descending)
  have "sorted_wrt (\<lambda>x y. fst (ots ! x) \<ge> fst (ots ! y)) ?xs"
  proof (rule sorted_wrt_mono_rel [OF _ desc])
    fix x y
    assume "x \<in> set ?xs" and "y \<in> set ?xs" and "y < x"
    then have "x < length ots" by (simp add: yield_indices_range(2))
    with srt \<open>y < x\<close> have "map fst ots ! y \<le> map fst ots ! x"
      by (intro sorted_nth_mono) simp_all
    with \<open>x < length ots\<close> \<open>y < x\<close> show "fst (ots ! y) \<le> fst (ots ! x)" by simp
  qed
  then have ends: "sorted_wrt (\<lambda>a b. a \<ge> b) (map (\<lambda>x. fst (ots ! x)) ?xs)"
    by (simp add: sorted_wrt_map)
  show ?thesis
    using res cnt pos each desc ends by (intro exI conjI)
qed

lemma sample_keys:
  "\<exists>t. valid_datetime t \<and> strftime t = Inr ''20240108080000''"
  "\<exists>t. valid_datetime t \<and> strftime t = Inr ''20240108090000''"
  "\<exists>t. valid_datetime t \<and> strftime t = Inr ''20240108110000''"
  "\<exists>t. valid_datetime t \<and> strftime t = Inr ''20240108120000''"
proof -
  show "\<exists>t. valid_datetime t \<and> strftime t = Inr ''20240108080000''"
    by (rule exI [of _ "\<lparr>year = 2024, month = 1, day = 8, hour = 8, minute = 0, second = 0\<rparr>"])
      code_simp
  show "\<exists>t. valid_datetime t \<and> strftime t = Inr ''20240108090000''"
    by (rule exI [of _ "\<lparr>year = 2024, month = 1, day = 8, hour = 9, minute = 0, second = 0\<rparr>"])
      code_simp
  show "\<exists>t. valid_datetime t \<and> strftime t = Inr ''20240108110000''"
    by (rule exI [of _ "\<lparr>year = 2024, month = 1, day = 8, hour = 11, minute = 0, second = 0\<rparr>"])
      code_simp
  show "\<exists>t. valid_datetime t \<and> strftime t = Inr ''20240108120000''"
    by (rule exI [of _ "\<lparr>year = 2024, month = 1, day = 8, hour = 12, minute = 0, second = 0\<rparr>"])
      code_simp
qed

theorem C4_ordered_stream_intervals_witness:
  "sorted (map fst [(''20240108080000'', ''Off''), (''20240108090000'', ''Coding''),
                    (''20240108110000'', ''Meetings''), (''20240108120000'', ''Off'')])
   \<and> 2 \<le> length [(''20240108080000'', ''Off''), (''20240108090000'', ''Coding''),
                    (''20240108110000'', ''Meetings''), (''20240108120000'', ''Off'')]
   \<and> (\<exists>ivs. get_activity_timings True
            [(''20240108080000'', ''Off''), (''20240108090000'', ''Coding''),
             (''20240108110000'', ''Meetings''), (''20240108120000'', ''Off'')] = Inr ivs
         \<and> int (length ivs)
             \<le> int (length [(''20240108080000'', ''Off''), (''20240108090000'', ''Coding''),
                             (''20240108110000'', ''Meetings''), (''20240108120000'', ''Off'')]) - 2
         \<and> (\<forall>iv\<in>set ivs. 0 \<le> time_delta iv)
         \<and> map Inr ivs = map (timing_at
               [(''20240108080000'', ''Off''), (''20240108090000'', ''Coding''),
                (''20240108110000'', ''Meetings''), (''20240108120000'', ''Off'')])
             (yield_indices True
               [(''20240108080000'', ''Off''), (''20240108090000'', ''Coding''),
                (''20240108110000'', ''Meetings''), (''20240108120000'', ''Off'')])
         \<and> sorted_wrt (\<lambda>x y. x > y) (yield_indices True
               [(''20240108080000'', ''Off''), (''20240108090000'', ''Coding''),
                (''20240108110000'', ''Meetings''), (''20240108120000'', ''Off'')])
         \<and> sorted_wrt (\<lambda>a b. a \<ge> b)
             (map (\<lambda>x. fst ([(''20240108080000'', ''Off''), (''20240108090000'', ''Coding''),
                               (''20240108110000'', ''Meetings''), (''20240108120000'', ''Off'')] ! x))
               (yield_indices True
                 [(''20240108080000'', ''Off''), (''20240108090000'', ''Coding''),
                  (''20240108110000'', ''Meetings''), (''20240108120000'', ''Off'')])))"
proof -
  let ?ev = "[(''20240108080000'', ''Off''), (''20240108090000'', ''Coding''),
              (''20240108110000'', ''Meetings''), (''20240108120000'', ''Off'')]"
  have srt: "sorted (map fst ?ev)" by code_simp
  have keys: "\<forall>e\<in>set ?ev. \<exists>t. valid_datetime t \<and> strftime t = Inr (fst e)"
    using sample_keys by simp
  have n: "2 \<le> length ?ev" by simp
  show ?thesis
    by (intro conjI srt n C4_ordered_stream_intervals [OF srt keys n])
qed

end
